theory Spec2Isabelle
  imports Main "HOL-Library.Sublist"
begin

section \<open>The Zerodha token refresher (\<^verbatim>\<open>final.py\<close>)\<close>

text \<open>
  The script logs into the broker with a browser it drives through Selenium, reads the
  request token off the redirect URL, exchanges it for an access token and upserts that
  token into MongoDB. The browser, the broker's API client, the TOTP generator, the
  clock and the database are outside the script: the model takes them as a record of
  operations over an abstract world, and every call of the script to one of them is
  written to a trace. Exceptions are values of the type \<open>error\<close>; a computation
  returns \<open>Inl\<close> of the exception it raised or \<open>Inr\<close> of its value, with the state
  it left behind. Logging and \<^verbatim>\<open>print\<close> have no effect on the control flow and are
  left out.
\<close>

subsection \<open>Exceptions\<close>

text \<open>
  \<open>Exception\<close> and \<open>RuntimeError\<close> are the two exception classes the script raises
  itself, with their message. The others are raised by the libraries: Selenium's
  \<open>TimeoutException\<close> and \<open>NoSuchElementException\<close>, Python's \<open>IndexError\<close> and
  \<open>KeyError\<close>; \<open>LibraryError\<close> stands for any other exception of a collaborator
  (WebDriver, KiteConnect, PyMongo, webdriver-manager). All of them are subclasses of
  Python's \<^verbatim>\<open>Exception\<close>, so \<^verbatim>\<open>except Exception\<close> catches each.
\<close>

datatype error =
    Exception string
  | RuntimeError string
  | TimeoutException
  | NoSuchElementException
  | IndexError
  | KeyError string
  | LibraryError string

subsection \<open>Python strings\<close>

text \<open>\<^verbatim>\<open>sub in s\<close>: \<open>sub\<close> occurs in \<open>s\<close> as a contiguous substring.\<close>

definition py_in :: "string \<Rightarrow> string \<Rightarrow> bool" where
  "py_in sub s = sublist sub s"

text \<open>
  \<^verbatim>\<open>s.split(sep)\<close>: the pieces of \<open>s\<close> between the occurrences of \<open>sep\<close>, found from
  left to right without overlap. The script only splits at non-empty literals (Python
  raises \<^verbatim>\<open>ValueError\<close> on an empty separator).
\<close>

function py_split :: "string \<Rightarrow> string \<Rightarrow> string list" where
  "py_split [] sep = [[]]"
| "py_split (c # cs) sep =
     (if sep \<noteq> [] \<and> prefix sep (c # cs)
      then [] # py_split (drop (length sep) (c # cs)) sep
      else (let ps = py_split cs sep in (c # hd ps) # tl ps))"
  by pat_completeness auto
termination
  by (relation "measure (\<lambda>(s, sep). length s)") auto

text \<open>\<^verbatim>\<open>xs[i]\<close> for a non-negative index: \<^verbatim>\<open>IndexError\<close> out of range.\<close>

definition py_index :: "'a list \<Rightarrow> nat \<Rightarrow> error + 'a" where
  "py_index xs i = (if i < length xs then Inr (xs ! i) else Inl IndexError)"

text \<open>\<^verbatim>\<open>s.lstrip(chars)\<close>: drop the leading characters that are among \<open>chars\<close>.\<close>

definition lstrip :: "string \<Rightarrow> string \<Rightarrow> string" where
  "lstrip s chars = dropWhile (\<lambda>c. c \<in> set chars) s"

subsection \<open>Extraction of the request token (lines 380 to 389 of \<^verbatim>\<open>login\<close>)\<close>

definition token_not_found :: error where
  "token_not_found = Exception ''Request token not found in URL; login failed?''"

definition extract_request_token :: "string \<Rightarrow> error + string" where
  "extract_request_token rt_url =
     (if py_in ''request_token='' rt_url then
        (case py_index (py_split rt_url ''request_token='') 1 of
           Inl e \<Rightarrow> Inl e
         | Inr after \<Rightarrow> py_index (py_split after ''&'') 0)
      else if py_in ''request_token'' rt_url then
        (let parts = py_split rt_url ''request_token'' in
           if length parts > 1 then
             (case py_index parts 1 of
                Inl e \<Rightarrow> Inl e
              | Inr p \<Rightarrow> Inr (lstrip p ''=&#?/''))
           else Inl token_not_found)
      else Inl token_not_found)"


text \<open>\<^verbatim>\<open>d[k]\<close> on a dictionary: \<^verbatim>\<open>KeyError\<close> when the key is missing.\<close>

definition py_getitem :: "(string \<times> 'v) list \<Rightarrow> string \<Rightarrow> error + 'v" where
  "py_getitem d k = (case map_of d k of None \<Rightarrow> Inl (KeyError k) | Some v \<Rightarrow> Inr v)"

text \<open>
  \<^verbatim>\<open>a or b\<close> on objects: the value is \<open>a\<close> itself when \<open>a\<close> is truthy, and
  \<open>b\<close> otherwise; \<open>b\<close> is not looked at in the first case.
\<close>

definition py_or :: "('a \<Rightarrow> bool) \<Rightarrow> 'a \<Rightarrow> 'a \<Rightarrow> 'a" where
  "py_or truthy a b = (if truthy a then a else b)"

subsection \<open>The page and the XPath expressions of the script\<close>

text \<open>
  An element of the page, as far as the script's XPath expressions look at it: its tag,
  its attributes, the text of its first text node (XPath \<^verbatim>\<open>text()\<close> under
  \<^verbatim>\<open>contains\<close>) and its string value (XPath \<^verbatim>\<open>.\<close>, the text a user sees).
  \<open>elem_id\<close> is the handle WebDriver gives the element.
\<close>

record element =
  elem_id :: nat
  tag :: string
  attrs :: "(string \<times> string) list"
  first_text :: string
  string_value :: string

text \<open>
  The predicates the script writes between brackets: \<^verbatim>\<open>@a="v"\<close>,
  \<^verbatim>\<open>contains(text(), "s")\<close>, \<^verbatim>\<open>contains(translate(., 'A..Z', 'a..z'), 's')\<close> and
  \<^verbatim>\<open>or\<close>. A locator is \<^verbatim>\<open>//tag[predicate]\<close> or a union \<^verbatim>\<open>|\<close> of locators.
\<close>

datatype xpred =
    AttrEq string string
  | TextContains string
  | LowerContains string
  | Or xpred xpred

datatype locator = Path string xpred | Union locator locator

definition upper_letters :: string where
  "upper_letters = ''ABCDEFGHIJKLMNOPQRSTUVWXYZ''"

definition lower_letters :: string where
  "lower_letters = ''abcdefghijklmnopqrstuvwxyz''"

text \<open>
  XPath \<^verbatim>\<open>translate(s, from, to)\<close>: each character of \<open>s\<close> that occurs in \<open>from\<close>
  is replaced by the character at the same place in \<open>to\<close>, or removed when \<open>to\<close> is
  too short; the first occurrence in \<open>from\<close> counts.
\<close>

definition translate :: "string \<Rightarrow> string \<Rightarrow> string \<Rightarrow> string" where
  "translate s from to =
     concat (map (\<lambda>c.
       case map_of (zip from (map Some to @ replicate (length from - length to) None)) c of
         None \<Rightarrow> [c]
       | Some None \<Rightarrow> []
       | Some (Some d) \<Rightarrow> [d]) s)"

fun holds :: "xpred \<Rightarrow> element \<Rightarrow> bool" where
  "holds (AttrEq a v) e = (map_of (attrs e) a = Some v)"
| "holds (TextContains t) e = py_in t (first_text e)"
| "holds (LowerContains t) e = py_in t (translate (string_value e) upper_letters lower_letters)"
| "holds (Or p q) e = (holds p e \<or> holds q e)"

fun selects :: "locator \<Rightarrow> element \<Rightarrow> bool" where
  "selects (Path t p) e = (tag e = t \<and> holds p e)"
| "selects (Union a b) e = (selects a e \<or> selects b e)"

text \<open>The locators of \<^verbatim>\<open>login\<close>, in the order of the source.\<close>

definition userid_xpath :: locator where
  "userid_xpath = Path ''input''
     (Or (AttrEq ''type'' ''text'') (Or (AttrEq ''id'' ''userid'') (AttrEq ''name'' ''userid'')))"

definition password_xpath :: locator where
  "password_xpath = Path ''input'' (Or (AttrEq ''type'' ''password'') (AttrEq ''name'' ''password''))"

definition submit_xpath :: locator where
  "submit_xpath = Path ''button'' (AttrEq ''type'' ''submit'')"

definition login_text_xpath :: locator where
  "login_text_xpath = Path ''button'' (Or (LowerContains ''login'') (LowerContains ''sign in''))"

definition totp_xpath :: locator where
  "totp_xpath = Path ''input''
     (Or (AttrEq ''type'' ''number'') (Or (AttrEq ''name'' ''totp'') (AttrEq ''id'' ''totp'')))"

definition continue_xpath :: locator where
  "continue_xpath =
     Union (Path ''button'' (AttrEq ''type'' ''submit''))
       (Union (Path ''button'' (TextContains ''Continue''))
          (Path ''button'' (TextContains ''CONTINUE'')))"

definition continue_lower_xpath :: locator where
  "continue_lower_xpath = Path ''button'' (LowerContains ''continue'')"


subsection \<open>Configuration\<close>

text \<open>
  What the script reads once at start: the credentials of \<^verbatim>\<open>load_config\<close>, the two
  Chrome entries of \<^verbatim>\<open>APP_CONFIG\<close>, the environment variables \<^verbatim>\<open>GITHUB_ACTIONS\<close>
  and \<^verbatim>\<open>CHROME_BIN\<close> (\<open>None\<close> when unset) and \<^verbatim>\<open>MONGO_URI\<close>.
\<close>

record config =
  api_key :: string
  api_secret :: string
  usr :: string
  pwd :: string
  authenticator :: string
  chrome_driver_path :: string
  chrome_user_data_dir :: string
  github_actions :: "string option"
  chrome_bin :: "string option"
  mongo_uri :: string

definition MONGO_DB_NAME :: string where
  "MONGO_DB_NAME = []"

definition MONGO_COLLECTION_NAME :: string where
  "MONGO_COLLECTION_NAME = ''zerodhatokens''"

definition TOKEN_UPDATED_BY :: string where
  "TOKEN_UPDATED_BY = ''aiman.singh30@gmail.com''"

record chrome_options =
  experimental_options :: "(string \<times> string) list"
  arguments :: "string list"
  binary_location :: "string option"

text \<open>\<^verbatim>\<open>os.getenv(name)\<close> used as a condition: unset and empty are both false.\<close>

definition env_truthy :: "string option \<Rightarrow> bool" where
  "env_truthy v = (case v of None \<Rightarrow> False | Some x \<Rightarrow> x \<noteq> [])"

definition make_chrome_options :: "config \<Rightarrow> chrome_options" where
  "make_chrome_options cfg =
     (let o1 = \<lparr>experimental_options =
                  [(''excludeSwitches'', ''enable-automation''),
                   (''useAutomationExtension'', ''False'')],
                arguments = [], binary_location = None\<rparr>;
          o2 = (if chrome_user_data_dir cfg \<noteq> [] \<and> \<not> env_truthy (github_actions cfg)
                then o1\<lparr>arguments := arguments o1 @ [''--user-data-dir='' @ chrome_user_data_dir cfg]\<rparr>
                else o1)
      in if github_actions cfg = Some ''true''
         then o2\<lparr>binary_location :=
                   Some (case chrome_bin cfg of None \<Rightarrow> ''/usr/bin/chromium-browser'' | Some b \<Rightarrow> b),
                 arguments := arguments o2 @
                   [''--headless=new'', ''--no-sandbox'', ''--disable-dev-shm-usage'',
                    ''--disable-gpu'', ''--window-size=1920,1080'',
                    ''--remote-debugging-port=9222'']\<rparr>
         else o2)"

subsection \<open>The world outside the script\<close>

text \<open>
  Handles: a browser session, a MongoDB client and a database are numbers the world
  gives out. Times are microseconds since the epoch (the resolution of Python's
  \<^verbatim>\<open>datetime\<close>); \<^verbatim>\<open>time.sleep\<close> and the retry delay are in milliseconds.
\<close>

type_synonym driver = nat
type_synonym mongo_client = nat
type_synonym database = nat
type_synonym datetime = int

definition timedelta_hours :: "int \<Rightarrow> int" where
  "timedelta_hours h = h * 3600 * 1000000"

text \<open>
  The argument of \<^verbatim>\<open>update_one\<close>: the collection, the filter on \<^verbatim>\<open>updatedBy\<close>, the
  fields under \<^verbatim>\<open>$set\<close> and \<^verbatim>\<open>$setOnInsert\<close>, and the \<^verbatim>\<open>upsert\<close> flag.
\<close>

record update_request =
  collection :: string
  filter_updatedBy :: string
  set_accessToken :: string
  set_updatedAt :: datetime
  set_expiresAt :: datetime
  set_isActive :: bool
  set_updatedBy :: string
  setOnInsert_createdAt :: datetime
  upsert :: bool

text \<open>
  The operations of the collaborators, each a function of the world that returns the
  value or the exception and the world after the call. \<open>page_elements\<close> is the list of
  the elements of the current page in document order, which \<^verbatim>\<open>find_elements\<close> filters
  by its XPath expression. \<open>url_polls\<close> is the number of further polls
  \<^verbatim>\<open>WebDriverWait(driver, 20).until\<close> makes after the first one before its 20 seconds
  are over. \<open>login_url\<close> is \<^verbatim>\<open>KiteConnect(api_key).login_url()\<close>, a string built from
  the key.
\<close>

record 'w env =
  login_url :: "string \<Rightarrow> string"
  install_driver :: "'w \<Rightarrow> (error + string) \<times> 'w"
  start_chrome :: "string \<Rightarrow> chrome_options \<Rightarrow> 'w \<Rightarrow> (error + driver) \<times> 'w"
  get_page :: "driver \<Rightarrow> string \<Rightarrow> 'w \<Rightarrow> (error + unit) \<times> 'w"
  wait_clickable :: "driver \<Rightarrow> locator \<Rightarrow> 'w \<Rightarrow> (error + element) \<times> 'w"
  clear_field :: "element \<Rightarrow> 'w \<Rightarrow> (error + unit) \<times> 'w"
  send_keys_to :: "element \<Rightarrow> string \<Rightarrow> 'w \<Rightarrow> (error + unit) \<times> 'w"
  page_elements :: "driver \<Rightarrow> 'w \<Rightarrow> (error + element list) \<times> 'w"
  click_on :: "element \<Rightarrow> 'w \<Rightarrow> (error + unit) \<times> 'w"
  pass_time :: "nat \<Rightarrow> 'w \<Rightarrow> 'w"
  totp_now :: "string \<Rightarrow> 'w \<Rightarrow> (error + string) \<times> 'w"
  read_current_url :: "driver \<Rightarrow> 'w \<Rightarrow> (error + string) \<times> 'w"
  url_polls :: nat
  kite_generate_session :: "string \<Rightarrow> string \<Rightarrow> 'w \<Rightarrow> (error + (string \<times> string) list) \<times> 'w"
  quit_driver :: "driver \<Rightarrow> 'w \<Rightarrow> (error + unit) \<times> 'w"
  new_mongo_client :: "string \<Rightarrow> 'w \<Rightarrow> (error + mongo_client) \<times> 'w"
  client_database :: "mongo_client \<Rightarrow> string \<Rightarrow> 'w \<Rightarrow> (error + database) \<times> 'w"
  client_default_database :: "mongo_client \<Rightarrow> 'w \<Rightarrow> (error + database) \<times> 'w"
  clock_utcnow :: "'w \<Rightarrow> datetime"
  coll_update_one :: "database \<Rightarrow> update_request \<Rightarrow> 'w \<Rightarrow> (error + unit) \<times> 'w"
  close_client :: "mongo_client \<Rightarrow> 'w \<Rightarrow> (error + unit) \<times> 'w"

text \<open>
  The trace: one event for each call, with its arguments and with what it returned or
  raised. \<open>RetryWait\<close> is the delay of the retry decorator, \<open>Sleep\<close> a
  \<^verbatim>\<open>time.sleep\<close> inside \<^verbatim>\<open>login\<close> or inside a wait.
\<close>

datatype event =
    InstallDriver "error + string"
  | StartChrome string chrome_options "error + driver"
  | Get driver string "error + unit"
  | WaitClickable driver locator "error + element"
  | Clear element "error + unit"
  | SendKeys element string "error + unit"
  | FindElements driver locator "error + element list"
  | FindElement driver locator "error + element"
  | Click element "error + unit"
  | Sleep nat
  | TotpNow string "error + string"
  | CurrentUrl driver "error + string"
  | GenerateSession string string "error + (string \<times> string) list"
  | SetAccessToken string
  | Quit driver "error + unit"
  | RetryWait nat
  | MongoClient string "error + mongo_client"
  | GetDatabase mongo_client string "error + database"
  | GetDefaultDatabase mongo_client "error + database"
  | UtcNow datetime
  | UpdateOne database update_request "error + unit"
  | Close mongo_client "error + unit"

record 'w st =
  world :: 'w
  trace :: "event list"

type_synonym ('a, 'w) prog = "'w st \<Rightarrow> (error + 'a) \<times> 'w st"

subsection \<open>Control flow\<close>

definition ret :: "'a \<Rightarrow> ('a, 'w) prog" where
  "ret x = (\<lambda>s. (Inr x, s))"

definition raise :: "error \<Rightarrow> ('a, 'w) prog" where
  "raise e = (\<lambda>s. (Inl e, s))"

text \<open>A pure computation that may raise.\<close>

definition lift :: "error + 'a \<Rightarrow> ('a, 'w) prog" where
  "lift r = (\<lambda>s. (r, s))"

text \<open>Sequence: an exception of the first part skips the second.\<close>

definition bnd :: "('a, 'w) prog \<Rightarrow> ('a \<Rightarrow> ('b, 'w) prog) \<Rightarrow> ('b, 'w) prog" where
  "bnd m f = (\<lambda>s. case m s of (Inl e, s1) \<Rightarrow> (Inl e, s1) | (Inr x, s1) \<Rightarrow> f x s1)"

text \<open>\<^verbatim>\<open>try: m except Exception as e: h(e)\<close>.\<close>

definition try_except :: "('a, 'w) prog \<Rightarrow> (error \<Rightarrow> ('a, 'w) prog) \<Rightarrow> ('a, 'w) prog" where
  "try_except m h = (\<lambda>s. case m s of (Inl e, s1) \<Rightarrow> h e s1 | (Inr x, s1) \<Rightarrow> (Inr x, s1))"

text \<open>
  \<^verbatim>\<open>try: m finally: fin\<close>: \<open>fin\<close> runs on every exit of \<open>m\<close>; the outcome is that
  of \<open>m\<close> unless \<open>fin\<close> raises itself.
\<close>

definition try_finally :: "('a, 'w) prog \<Rightarrow> (unit, 'w) prog \<Rightarrow> ('a, 'w) prog" where
  "try_finally m fin =
     (\<lambda>s. case m s of (r, s1) \<Rightarrow>
        (case fin s1 of (Inl e, s2) \<Rightarrow> (Inl e, s2) | (Inr u, s2) \<Rightarrow> (r, s2)))"

text \<open>\<^verbatim>\<open>try: m except Exception: pass\<close>.\<close>

definition suppress :: "(unit, 'w) prog \<Rightarrow> (unit, 'w) prog" where
  "suppress m = try_except m (\<lambda>e. ret ())"

text \<open>A call to a collaborator: the world moves on and the event is written.\<close>

definition call :: "((error + 'a) \<Rightarrow> event) \<Rightarrow> ('w \<Rightarrow> (error + 'a) \<times> 'w) \<Rightarrow> ('a, 'w) prog" where
  "call ev op = (\<lambda>s. case op (world s) of (r, w) \<Rightarrow> (r, \<lparr>world = w, trace = trace s @ [ev r]\<rparr>))"

subsection \<open>The calls of the script\<close>

definition sleep :: "'w env \<Rightarrow> nat \<Rightarrow> (unit, 'w) prog" where
  "sleep env ms = (\<lambda>s. (Inr (), \<lparr>world = pass_time env ms (world s), trace = trace s @ [Sleep ms]\<rparr>))"

definition retry_wait :: "'w env \<Rightarrow> nat \<Rightarrow> 'w st \<Rightarrow> 'w st" where
  "retry_wait env ms s = \<lparr>world = pass_time env ms (world s), trace = trace s @ [RetryWait ms]\<rparr>"

definition find_elements :: "'w env \<Rightarrow> driver \<Rightarrow> locator \<Rightarrow> (element list, 'w) prog" where
  "find_elements env d loc =
     call (FindElements d loc)
       (\<lambda>w. case page_elements env d w of
          (Inl e, w1) \<Rightarrow> (Inl e, w1)
        | (Inr els, w1) \<Rightarrow> (Inr (filter (selects loc) els), w1))"

text \<open>\<^verbatim>\<open>find_element\<close>: the first match, \<^verbatim>\<open>NoSuchElementException\<close> when there is none.\<close>

definition find_element :: "'w env \<Rightarrow> driver \<Rightarrow> locator \<Rightarrow> (element, 'w) prog" where
  "find_element env d loc =
     call (FindElement d loc)
       (\<lambda>w. case page_elements env d w of
          (Inl e, w1) \<Rightarrow> (Inl e, w1)
        | (Inr els, w1) \<Rightarrow>
            (case filter (selects loc) els of
               [] \<Rightarrow> (Inl NoSuchElementException, w1)
             | x # xs \<Rightarrow> (Inr x, w1)))"

definition current_url :: "'w env \<Rightarrow> driver \<Rightarrow> (string, 'w) prog" where
  "current_url env d = call (CurrentUrl d) (read_current_url env d)"

definition utcnow :: "'w env \<Rightarrow> (datetime, 'w) prog" where
  "utcnow env = (\<lambda>s. (Inr (clock_utcnow env (world s)),
                       s\<lparr>trace := trace s @ [UtcNow (clock_utcnow env (world s))]\<rparr>))"


subsection \<open>Waiting for a condition on the URL\<close>

text \<open>
  \<^verbatim>\<open>EC.url_contains(t)\<close> builds a function object that, applied to the driver, reads
  \<^verbatim>\<open>driver.current_url\<close> and tests \<^verbatim>\<open>t in\<close> it. A function object is always truthy.
\<close>

datatype url_condition = url_contains string

definition condition_truthy :: "url_condition \<Rightarrow> bool" where
  "condition_truthy c = True"

fun apply_condition :: "'w env \<Rightarrow> driver \<Rightarrow> url_condition \<Rightarrow> (bool, 'w) prog" where
  "apply_condition env d (url_contains t) = bnd (current_url env d) (\<lambda>u. ret (py_in t u))"

text \<open>
  \<^verbatim>\<open>WebDriverWait.until(method)\<close>: call the method; return when its value is truthy;
  otherwise sleep for the poll interval of half a second and try again, until the time is
  over, then raise \<^verbatim>\<open>TimeoutException\<close>. The method is called at least once.
  An exception of \<^verbatim>\<open>current_url\<close> is not among those the wait ignores and leaves it.
\<close>

primrec poll_until :: "'w env \<Rightarrow> driver \<Rightarrow> url_condition \<Rightarrow> nat \<Rightarrow> (unit, 'w) prog" where
  "poll_until env d c 0 = raise TimeoutException"
| "poll_until env d c (Suc n) =
     bnd (apply_condition env d c) (\<lambda>v.
       if v then ret ()
       else bnd (sleep env 500) (\<lambda>u. poll_until env d c n))"

definition wait_until :: "'w env \<Rightarrow> driver \<Rightarrow> url_condition \<Rightarrow> (unit, 'w) prog" where
  "wait_until env d c = poll_until env d c (Suc (url_polls env))"

text \<open>The argument of the wait at line 375, as Python evaluates it.\<close>

definition redirect_condition :: url_condition where
  "redirect_condition =
     py_or condition_truthy (url_contains ''request_token'') (url_contains ''status=success'')"

subsection \<open>\<^verbatim>\<open>ZerodhaClient.login\<close>\<close>

definition max_retries :: nat where
  "max_retries = 3"

text \<open>
  Starting the browser (lines 243 to 265): first with the configured driver path, when
  there is one, where a failure only falls through; then with the driver that
  webdriver-manager installs, where a failure is a \<^verbatim>\<open>RuntimeError\<close>.
\<close>

definition launch :: "'w env \<Rightarrow> config \<Rightarrow> (driver, 'w) prog" where
  "launch env cfg =
     bnd (if chrome_driver_path cfg \<noteq> []
          then try_except
                 (bnd (call (StartChrome (chrome_driver_path cfg) (make_chrome_options cfg))
                         (start_chrome env (chrome_driver_path cfg) (make_chrome_options cfg)))
                    (\<lambda>d. ret (Some d)))
                 (\<lambda>e. ret None)
          else ret None)
       (\<lambda>driver. case driver of
          Some d \<Rightarrow> ret d
        | None \<Rightarrow>
            try_except
              (bnd (call InstallDriver (install_driver env)) (\<lambda>driver_path.
                 call (StartChrome driver_path (make_chrome_options cfg))
                   (start_chrome env driver_path (make_chrome_options cfg))))
              (\<lambda>e. raise (RuntimeError ''Unable to start Chrome via webdriver-manager'')))"

text \<open>User id and password (lines 271 to 287).\<close>

definition fill_field :: "'w env \<Rightarrow> driver \<Rightarrow> locator \<Rightarrow> string \<Rightarrow> (unit, 'w) prog" where
  "fill_field env d loc v =
     bnd (call (WaitClickable d loc) (wait_clickable env d loc)) (\<lambda>box.
     bnd (call (Clear box) (clear_field env box)) (\<lambda>u.
       call (SendKeys box v) (send_keys_to env box v)))"

text \<open>The submit of the first screen (lines 290 to 302).\<close>

definition submit_not_found :: error where
  "submit_not_found = Exception ''Login submit button not found''"

definition login_submit :: "'w env \<Rightarrow> driver \<Rightarrow> (unit, 'w) prog" where
  "login_submit env d =
     bnd (find_elements env d submit_xpath) (\<lambda>submit_btns.
       if submit_btns \<noteq> [] then call (Click (hd submit_btns)) (click_on env (hd submit_btns))
       else
         bnd (find_elements env d login_text_xpath) (\<lambda>alt_btns.
           if alt_btns \<noteq> [] then call (Click (hd alt_btns)) (click_on env (hd alt_btns))
           else raise submit_not_found))"

text \<open>
  Entering the TOTP (lines 319 to 335), a loop over the attempts \<open>range(max_retries)\<close>:
  a successful entry leaves the loop; a failed one, when it is not the last attempt,
  sleeps a second, finds the field again (an exception of \<^verbatim>\<open>find_element\<close> leaves
  the loop) and goes on with the next attempt; the last attempt raises again what it
  caught.
\<close>

primrec totp_entry_loop :: "'w env \<Rightarrow> driver \<Rightarrow> string \<Rightarrow> nat list \<Rightarrow> element \<Rightarrow> (unit, 'w) prog" where
  "totp_entry_loop env d authkey [] = (\<lambda>totp_box. ret ())"
| "totp_entry_loop env d authkey (attempt # rest) = (\<lambda>totp_box.
     try_except
       (bnd (call (Clear totp_box) (clear_field env totp_box)) (\<lambda>u.
          call (SendKeys totp_box authkey) (send_keys_to env totp_box authkey)))
       (\<lambda>e. if attempt < max_retries - 1
            then bnd (sleep env 1000) (\<lambda>u.
                 bnd (find_element env d totp_xpath) (\<lambda>totp_box.
                   totp_entry_loop env d authkey rest totp_box))
            else raise e))"

text \<open>
  Submitting the TOTP (lines 339 to 372). Without a button the script looks at the URL
  for a page that went on by itself; \<^verbatim>\<open>driver.current_url\<close> is read once for each
  operand of \<^verbatim>\<open>or\<close>, the second time only when the first test fails.
\<close>

definition totp_submit_not_found :: error where
  "totp_submit_not_found = Exception ''TOTP submit button not found''"

primrec totp_submit_loop :: "'w env \<Rightarrow> driver \<Rightarrow> nat list \<Rightarrow> (unit, 'w) prog" where
  "totp_submit_loop env d [] = ret ()"
| "totp_submit_loop env d (attempt # rest) =
     try_except
       (bnd (find_elements env d continue_xpath) (\<lambda>found.
        bnd (if found = [] then find_elements env d continue_lower_xpath else ret found)
          (\<lambda>submit_btns.
            if submit_btns \<noteq> []
            then call (Click (last submit_btns)) (click_on env (last submit_btns))
            else
              bnd (sleep env 2000) (\<lambda>u.
              bnd (current_url env d) (\<lambda>url1.
                if py_in ''request_token'' url1 then ret ()
                else bnd (current_url env d) (\<lambda>url2.
                  if py_in ''status=success'' url2 then ret ()
                  else raise totp_submit_not_found))))))
       (\<lambda>e. if attempt < max_retries - 1
            then bnd (sleep env 1000) (\<lambda>u. totp_submit_loop env d rest)
            else raise e)"

text \<open>
  The exchange (lines 391 to 393 and 406): the session data of the API client, its
  entry \<^verbatim>\<open>access_token\<close>, which is what \<^verbatim>\<open>login\<close> returns.
\<close>

definition exchange :: "'w env \<Rightarrow> config \<Rightarrow> string \<Rightarrow> (string, 'w) prog" where
  "exchange env cfg rt =
     bnd (call (GenerateSession rt (api_secret cfg)) (kite_generate_session env rt (api_secret cfg)))
       (\<lambda>data.
     bnd (lift (py_getitem data ''access_token'')) (\<lambda>access_token.
     bnd (call (\<lambda>r. SetAccessToken access_token) (\<lambda>w. (Inr (), w))) (\<lambda>u.
       ret access_token)))"

text \<open>
  From the wait for the redirect to the token (lines 375 to 406): the URL is read
  again after the wait, and the request token is cut out of that second reading.
\<close>

definition complete_login :: "'w env \<Rightarrow> config \<Rightarrow> driver \<Rightarrow> (string, 'w) prog" where
  "complete_login env cfg d =
     bnd (wait_until env d redirect_condition) (\<lambda>u.
     bnd (current_url env d) (\<lambda>rt_url.
     bnd (lift (extract_request_token rt_url)) (\<lambda>rt.
       exchange env cfg rt)))"

text \<open>The OTP step (lines 309 to 335): the field, one code, the entry loop.\<close>

definition totp_step :: "'w env \<Rightarrow> config \<Rightarrow> driver \<Rightarrow> (unit, 'w) prog" where
  "totp_step env cfg d =
     bnd (call (WaitClickable d totp_xpath) (wait_clickable env d totp_xpath)) (\<lambda>totp_box.
     bnd (call (TotpNow (authenticator cfg)) (totp_now env (authenticator cfg))) (\<lambda>authkey.
       totp_entry_loop env d authkey [0..<max_retries] totp_box))"

text \<open>The body of the \<^verbatim>\<open>try\<close> of \<^verbatim>\<open>login\<close> (lines 268 to 406).\<close>

definition login_body :: "'w env \<Rightarrow> config \<Rightarrow> driver \<Rightarrow> (string, 'w) prog" where
  "login_body env cfg d =
     bnd (call (Get d (login_url env (api_key cfg))) (get_page env d (login_url env (api_key cfg))))
       (\<lambda>u.
     bnd (fill_field env d userid_xpath (usr cfg)) (\<lambda>u.
     bnd (fill_field env d password_xpath (pwd cfg)) (\<lambda>u.
     bnd (login_submit env d) (\<lambda>u.
     bnd (sleep env 2000) (\<lambda>u.
     bnd (totp_step env cfg d) (\<lambda>u.
     bnd (sleep env 2000) (\<lambda>u.
     bnd (totp_submit_loop env d [0..<max_retries]) (\<lambda>u.
       complete_login env cfg d))))))))"

text \<open>
  One run of the undecorated \<^verbatim>\<open>login\<close>: the launch, then the body under
  \<^verbatim>\<open>finally: try: driver.quit() except Exception: pass\<close>.
\<close>

definition login_once :: "'w env \<Rightarrow> config \<Rightarrow> (string, 'w) prog" where
  "login_once env cfg =
     bnd (launch env cfg) (\<lambda>d.
       try_finally (login_body env cfg d) (suppress (call (Quit d) (quit_driver env d))))"

text \<open>
  Modelled from the spec: the decorator
  \<^verbatim>\<open>@retry(stop_max_attempt_number=3, wait_fixed=5000)\<close> of the \<^verbatim>\<open>retrying\<close>
  package, which is not among the sources. The whole operation is run again on any
  exception, up to the given number of attempts, with the fixed delay between two
  attempts; the exception of the last attempt is raised.
\<close>

function retry_call :: "'w env \<Rightarrow> nat \<Rightarrow> nat \<Rightarrow> ('a, 'w) prog \<Rightarrow> nat \<Rightarrow> ('a, 'w) prog" where
  "retry_call env stop_max_attempt_number wait_fixed fn attempt_number s =
     (case fn s of
        (Inr v, s1) \<Rightarrow> (Inr v, s1)
      | (Inl e, s1) \<Rightarrow>
          if attempt_number \<ge> stop_max_attempt_number then (Inl e, s1)
          else retry_call env stop_max_attempt_number wait_fixed fn (attempt_number + 1)
                 (retry_wait env wait_fixed s1))"
  by pat_completeness auto
termination
  by (relation "measure (\<lambda>(env, stop, wait, fn, n, s). stop - n)") auto

definition login :: "'w env \<Rightarrow> config \<Rightarrow> (string, 'w) prog" where
  "login env cfg = retry_call env 3 5000 (login_once env cfg) 1"

subsection \<open>\<^verbatim>\<open>save_token_to_mongo\<close> and \<^verbatim>\<open>main\<close>\<close>

definition save_token_to_mongo :: "'w env \<Rightarrow> config \<Rightarrow> string \<Rightarrow> (unit, 'w) prog" where
  "save_token_to_mongo env cfg access_token =
     bnd (call (MongoClient (mongo_uri cfg)) (new_mongo_client env (mongo_uri cfg))) (\<lambda>client.
       try_finally
         (bnd (if MONGO_DB_NAME \<noteq> []
               then call (GetDatabase client MONGO_DB_NAME) (client_database env client MONGO_DB_NAME)
               else call (GetDefaultDatabase client) (client_default_database env client))
            (\<lambda>db.
          bnd (utcnow env) (\<lambda>now.
            let expires_at = now + timedelta_hours 24;
                request = \<lparr>collection = MONGO_COLLECTION_NAME,
                           filter_updatedBy = TOKEN_UPDATED_BY,
                           set_accessToken = access_token,
                           set_updatedAt = now,
                           set_expiresAt = expires_at,
                           set_isActive = True,
                           set_updatedBy = TOKEN_UPDATED_BY,
                           setOnInsert_createdAt = now,
                           upsert = True\<rparr>
            in call (UpdateOne db request) (coll_update_one env db request))))
         (suppress (call (Close client) (close_client env client))))"

text \<open>\<^verbatim>\<open>main\<close> returns the exit status of the process: 1 after \<^verbatim>\<open>sys.exit(1)\<close>.\<close>

definition main :: "'w env \<Rightarrow> config \<Rightarrow> 'w st \<Rightarrow> nat \<times> 'w st" where
  "main env cfg s =
     (case bnd (login env cfg) (\<lambda>access_token. save_token_to_mongo env cfg access_token) s of
        (Inl e, s1) \<Rightarrow> (1, s1)
      | (Inr u, s1) \<Rightarrow> (0, s1))"

subsection \<open>What a computation writes to the trace\<close>

text \<open>
  \<open>emits m Q\<close>: from every state, \<open>m\<close> only appends to the trace, and its outcome
  and the events it appends satisfy \<open>Q\<close>. \<open>only P m\<close>: every event \<open>m\<close> appends
  satisfies \<open>P\<close>.
\<close>

definition emits :: "('a, 'w) prog \<Rightarrow> ((error + 'a) \<Rightarrow> event list \<Rightarrow> bool) \<Rightarrow> bool" where
  "emits m Q = (\<forall>s. \<exists>evs. trace (snd (m s)) = trace s @ evs \<and> Q (fst (m s)) evs)"

definition only :: "(event \<Rightarrow> bool) \<Rightarrow> ('a, 'w) prog \<Rightarrow> bool" where
  "only P m = emits m (\<lambda>r evs. list_all P evs)"

subsection \<open>Buttons, in the words of the specification\<close>

text \<open>
  A submit-typed button, and a button whose visible text contains \<^verbatim>\<open>login\<close> or
  \<^verbatim>\<open>sign in\<close> when the case of the ASCII letters is ignored. \<open>ascii_lower\<close> maps
  the codes 65 to 90 (A to Z) to the lower-case letter and leaves every other character.
\<close>

definition ascii_lower :: "char \<Rightarrow> char" where
  "ascii_lower c =
     (let n = (of_char c :: nat) in if 65 \<le> n \<and> n \<le> 90 then char_of (n + 32) else c)"

definition is_submit_button :: "element \<Rightarrow> bool" where
  "is_submit_button e = (tag e = ''button'' \<and> map_of (attrs e) ''type'' = Some ''submit'')"

definition has_login_text :: "element \<Rightarrow> bool" where
  "has_login_text e =
     (tag e = ''button'' \<and>
      (py_in ''login'' (map ascii_lower (string_value e))
       \<or> py_in ''sign in'' (map ascii_lower (string_value e))))"

subsection \<open>Reading a trace\<close>

text \<open>
  Kinds of events. \<open>in_session\<close>: a call made between the launch of the browser and its
  teardown. \<open>quiet\<close>: such a call that neither computes the OTP nor types into a field.
  \<open>sends_only k\<close>: quiet, or typing exactly the string \<open>k\<close>. \<open>before_code\<close>: a call in
  the session other than the computation of the OTP.
\<close>

fun is_totp_now :: "event \<Rightarrow> bool" where
  "is_totp_now (TotpNow secret r) = True"
| "is_totp_now ev = False"

fun is_send_keys :: "event \<Rightarrow> bool" where
  "is_send_keys (SendKeys b k r) = True"
| "is_send_keys ev = False"

fun is_retry_wait :: "event \<Rightarrow> bool" where
  "is_retry_wait (RetryWait ms) = True"
| "is_retry_wait ev = False"

fun is_persistence :: "event \<Rightarrow> bool" where
  "is_persistence (MongoClient uri r) = True"
| "is_persistence (GetDatabase c name r) = True"
| "is_persistence (GetDefaultDatabase c r) = True"
| "is_persistence (UtcNow t) = True"
| "is_persistence (UpdateOne db req r) = True"
| "is_persistence (Close c r) = True"
| "is_persistence ev = False"

fun in_session :: "event \<Rightarrow> bool" where
  "in_session (InstallDriver r) = False"
| "in_session (StartChrome path opts r) = False"
| "in_session (Quit d r) = False"
| "in_session (RetryWait ms) = False"
| "in_session ev = (\<not> is_persistence ev)"

fun quiet :: "event \<Rightarrow> bool" where
  "quiet ev = (in_session ev \<and> \<not> is_totp_now ev \<and> \<not> is_send_keys ev)"

fun sends_only :: "string \<Rightarrow> event \<Rightarrow> bool" where
  "sends_only k (SendKeys b k' r) = (k' = k)"
| "sends_only k ev = quiet ev"

text \<open>
  The sessions a trace starts and the sessions it quits, in order; the delays of the retry
  decorator; and the cycles of a trace, which are its pieces between these delays.
\<close>

fun started :: "event \<Rightarrow> driver list" where
  "started (StartChrome path opts (Inr d)) = [d]"
| "started ev = []"

definition sessions_started :: "event list \<Rightarrow> driver list" where
  "sessions_started evs = concat (map started evs)"

fun quitted :: "event \<Rightarrow> driver list" where
  "quitted (Quit d r) = [d]"
| "quitted ev = []"

definition sessions_quit :: "event list \<Rightarrow> driver list" where
  "sessions_quit evs = concat (map quitted evs)"

fun delay_of :: "event \<Rightarrow> nat list" where
  "delay_of (RetryWait ms) = [ms]"
| "delay_of ev = []"

definition retry_delays :: "event list \<Rightarrow> nat list" where
  "retry_delays evs = concat (map delay_of evs)"

fun cycles :: "event list \<Rightarrow> event list list" where
  "cycles [] = [[]]"
| "cycles (ev # evs) =
     (if is_retry_wait ev then [] # cycles evs
      else (case cycles evs of [] \<Rightarrow> [[ev]] | c # cs \<Rightarrow> (ev # c) # cs))"

fun is_launch :: "event \<Rightarrow> bool" where
  "is_launch (InstallDriver r) = True"
| "is_launch (StartChrome path opts r) = True"
| "is_launch ev = False"

fun before_code :: "event \<Rightarrow> bool" where
  "before_code ev = (in_session ev \<and> \<not> is_totp_now ev)"

subsection \<open>A simulated world\<close>

text \<open>
  A small world to run the model on: a page that does not change, the URLs that the
  successive readings of \<^verbatim>\<open>current_url\<close> return (the last one stays), a number of
  coming entries into the OTP field that fail the way a stale element does, a clock,
  the handles of the elements clicked so far, the OTP codes computed so far, the sessions
  quit so far, the requests the database has received, the strings sent to the fields, and a browser whose
  \<^verbatim>\<open>quit\<close> raises when the flag is set. The broker accepts the
  request token \<^verbatim>\<open>abc123\<close> only.
\<close>

record sim =
  sim_page :: "element list"
  sim_urls :: "string list"
  sim_stale :: nat
  sim_now :: int
  sim_sessions :: nat
  sim_quit_fails :: bool
  sim_clicks :: "nat list"
  sim_codes :: "string list"
  sim_quits :: "driver list"
  sim_updates :: "update_request list"
  sim_typed :: "(nat \<times> string) list"

definition sim_env :: "sim env" where
  "sim_env = \<lparr>
     login_url = (\<lambda>k. ''https://kite.zerodha.com/connect/login?api_key='' @ k @ ''&v=3''),
     install_driver = (\<lambda>w. (Inr ''/wdm/chromedriver'', w)),
     start_chrome = (\<lambda>path opts w. (Inr (sim_sessions w), w\<lparr>sim_sessions := Suc (sim_sessions w)\<rparr>)),
     get_page = (\<lambda>d url w. (Inr (), w)),
     wait_clickable = (\<lambda>d loc w.
       case filter (selects loc) (sim_page w) of
         [] \<Rightarrow> (Inl TimeoutException, w)
       | x # xs \<Rightarrow> (Inr x, w)),
     clear_field = (\<lambda>e w. (Inr (), w)),
     send_keys_to = (\<lambda>e v w.
       if selects totp_xpath e \<and> 0 < sim_stale w
       then (Inl (LibraryError ''StaleElementReferenceException''),
             w\<lparr>sim_stale := sim_stale w - 1, sim_typed := sim_typed w @ [(elem_id e, v)]\<rparr>)
       else (Inr (), w\<lparr>sim_typed := sim_typed w @ [(elem_id e, v)]\<rparr>)),
     page_elements = (\<lambda>d w. (Inr (sim_page w), w)),
     click_on = (\<lambda>e w. (Inr (), w\<lparr>sim_clicks := sim_clicks w @ [elem_id e]\<rparr>)),
     pass_time = (\<lambda>ms w. w\<lparr>sim_now := sim_now w + int ms * 1000\<rparr>),
     totp_now = (\<lambda>secret w. (Inr ''492039'', w\<lparr>sim_codes := sim_codes w @ [''492039'']\<rparr>)),
     read_current_url = (\<lambda>d w.
       case sim_urls w of
         [] \<Rightarrow> (Inl (LibraryError ''NoSuchWindowException''), w)
       | [u] \<Rightarrow> (Inr u, w)
       | u # v # us \<Rightarrow> (Inr u, w\<lparr>sim_urls := v # us\<rparr>)),
     url_polls = 2,
     kite_generate_session = (\<lambda>rt secret w.
       if rt = ''abc123''
       then (Inr [(''access_token'', ''tok123''), (''user_id'', ''XW7136'')], w)
       else (Inl (LibraryError ''TokenException''), w)),
     quit_driver = (\<lambda>d w.
       if sim_quit_fails w
       then (Inl (LibraryError ''WebDriverException''), w\<lparr>sim_quits := sim_quits w @ [d]\<rparr>)
       else (Inr (), w\<lparr>sim_quits := sim_quits w @ [d]\<rparr>)),
     new_mongo_client = (\<lambda>uri w. (Inr 0, w)),
     client_database = (\<lambda>c name w. (Inr 0, w)),
     client_default_database = (\<lambda>c w. (Inr 0, w)),
     clock_utcnow = sim_now,
     coll_update_one = (\<lambda>db req w. (Inr (), w\<lparr>sim_updates := sim_updates w @ [req]\<rparr>)),
     close_client = (\<lambda>c w. (Inr (), w))\<rparr>"

definition sim_cfg :: config where
  "sim_cfg = \<lparr>api_key = ''key'', api_secret = ''secret'', usr = ''XW7136'', pwd = ''pw'',
     authenticator = ''SEED'', chrome_driver_path = [], chrome_user_data_dir = [],
     github_actions = None, chrome_bin = None, mongo_uri = ''mongodb://db/tokens''\<rparr>"

definition userid_box :: element where
  "userid_box = \<lparr>elem_id = 1, tag = ''input'', attrs = [(''type'', ''text'')],
     first_text = [], string_value = []\<rparr>"

definition password_box :: element where
  "password_box = \<lparr>elem_id = 2, tag = ''input'', attrs = [(''type'', ''password'')],
     first_text = [], string_value = []\<rparr>"

definition totp_box :: element where
  "totp_box = \<lparr>elem_id = 3, tag = ''input'', attrs = [(''type'', ''number'')],
     first_text = [], string_value = []\<rparr>"

definition submit_button :: element where
  "submit_button = \<lparr>elem_id = 4, tag = ''button'', attrs = [(''type'', ''submit'')],
     first_text = ''Login'', string_value = ''Login''\<rparr>"

definition sign_in_button :: element where
  "sign_in_button = \<lparr>elem_id = 5, tag = ''button'', attrs = [],
     first_text = ''Sign In'', string_value = ''Sign In''\<rparr>"

definition sim_start :: "element list \<Rightarrow> string list \<Rightarrow> nat \<Rightarrow> sim st" where
  "sim_start pg urls stale =
     \<lparr>world = \<lparr>sim_page = pg, sim_urls = urls, sim_stale = stale, sim_now = 0,
                sim_sessions = 0, sim_quit_fails = True, sim_clicks = [], sim_codes = [],
                sim_quits = [], sim_updates = [], sim_typed = []\<rparr>,
      trace = []\<rparr>"

section \<open>Splitting strings\<close>

lemma py_split_not_Nil: "py_split s sep \<noteq> []"
  by (induction s sep rule: py_split.induct) (auto simp: Let_def)

lemma py_split_no_occurrence: "\<not> sublist sep s \<Longrightarrow> py_split s sep = [s]"
proof (induction s)
  case Nil
  then show ?case by simp
next
  case (Cons c cs)
  then have np: "\<not> prefix sep (c # cs)" and ns: "\<not> sublist sep cs"
    by (auto simp: sublist_Cons_right)
  from Cons.IH [OF ns] np show ?case by simp
qed

lemma py_split_first:
  assumes "sep \<noteq> []" and "\<not> sublist sep (pre @ butlast sep)"
  shows "py_split (pre @ sep @ rest) sep = pre # py_split rest sep"
  using assms(2)
proof (induction pre)
  case Nil
  obtain c cs where sep: "sep = c # cs" using assms(1) by (cases sep) auto
  have "py_split ((c # cs) @ rest) (c # cs) = [] # py_split (drop (length (c # cs)) ((c # cs) @ rest)) (c # cs)"
    by (simp del: drop_append append.simps add: append_Cons)
  then show ?case unfolding sep by simp
next
  case (Cons a pre)
  have ns: "\<not> sublist sep (pre @ butlast sep)"
    using Cons.prems by (auto simp: sublist_Cons_right)
  have np: "\<not> prefix sep (a # pre @ sep @ rest)"
  proof
    assume p: "prefix sep (a # pre @ sep @ rest)"
    have "length sep \<le> length ((a # pre) @ butlast sep)" by simp
    have "take (length sep) ((a # pre) @ sep @ rest) = sep"
      using p by (metis append_Cons append_eq_conv_conj prefix_def)
    moreover have "take (length sep) ((a # pre) @ sep @ rest) = take (length sep) ((a # pre) @ butlast sep)"
      by (cases sep rule: rev_cases) (use assms(1) in auto)
    ultimately have "prefix sep ((a # pre) @ butlast sep)"
      by (metis take_is_prefix)
    then show False using Cons.prems by auto
  qed
  from Cons.IH [OF ns] np show ?case by simp
qed

lemma length_py_split_occurrence:
  "sep \<noteq> [] \<Longrightarrow> sublist sep s \<Longrightarrow> 2 \<le> length (py_split s sep)"
proof (induction s)
  case Nil
  then show ?case by simp
next
  case (Cons c cs)
  show ?case
  proof (cases "prefix sep (c # cs)")
    case True
    then show ?thesis using Cons.prems(1) py_split_not_Nil [of "drop (length sep) (c # cs)" sep]
      by (cases "py_split (drop (length sep) (c # cs)) sep") (auto simp del: drop_Suc_Cons)
  next
    case False
    then have "sublist sep cs" using Cons.prems(2) by (simp add: sublist_Cons_right)
    from Cons.IH [OF Cons.prems(1) this] False show ?thesis
      by (cases "py_split cs sep") (auto simp: Let_def)
  qed
qed

lemma hd_py_split_char: "hd (py_split s [c]) = takeWhile (\<lambda>x. x \<noteq> c) s"
  by (induction s) (auto simp: Let_def)

lemma takeWhile_hd_py_split:
  assumes "c \<notin> set sep"
  shows "\<not> sublist sep (takeWhile (\<lambda>x. x \<noteq> c) r) \<Longrightarrow>
    takeWhile (\<lambda>x. x \<noteq> c) (hd (py_split r sep)) = takeWhile (\<lambda>x. x \<noteq> c) r"
proof (induction r)
  case Nil
  then show ?case by simp
next
  case (Cons a r)
  show ?case
  proof (cases "a = c")
    case True
    then have "\<not> prefix sep (a # r)" using assms Cons.prems by (cases sep) auto
    with True show ?thesis by (simp add: Let_def)
  next
    case False
    have np: "\<not> prefix sep (a # r)"
    proof
      assume "prefix sep (a # r)"
      then obtain zs where z: "a # r = sep @ zs" by (auto simp: prefix_def)
      have "takeWhile (\<lambda>x. x \<noteq> c) (sep @ zs) = sep @ takeWhile (\<lambda>x. x \<noteq> c) zs"
        using assms by (intro takeWhile_append2) auto
      then have "sublist sep (takeWhile (\<lambda>x. x \<noteq> c) (a # r))" unfolding z by simp
      then show False using Cons.prems by simp
    qed
    have "\<not> sublist sep (takeWhile (\<lambda>x. x \<noteq> c) r)"
      using Cons.prems False by (auto simp: sublist_Cons_right)
    from Cons.IH [OF this] np False show ?thesis by (simp add: Let_def)
  qed
qed

lemma no_early_occurrence:
  assumes "sep = x # b" and "x \<notin> set b" and "\<not> sublist sep pre"
  shows "\<not> sublist sep (pre @ butlast sep)"
  using assms(3)
proof (induction pre)
  case Nil
  have "length (butlast sep) < length sep" using assms(1) by simp
  then show ?case using sublist_length_le [of sep "butlast sep"] by auto
next
  case (Cons a pre)
  have ns: "\<not> sublist sep pre" and np: "\<not> prefix sep (a # pre)"
    using Cons.prems by (auto simp: sublist_Cons_right)
  have "\<not> prefix sep ((a # pre) @ butlast sep)"
  proof
    assume "prefix sep ((a # pre) @ butlast sep)"
    then have "prefix sep (a # pre) \<or> (\<exists>us. sep = (a # pre) @ us \<and> prefix us (butlast sep))"
      by (simp only: prefix_append)
    then obtain us where us: "sep = (a # pre) @ us" "prefix us (butlast sep)"
      using np by blast
    have "us \<noteq> []" using us(1) np by auto
    then have "hd us = x" using us(2) assms(1)
      by (cases us; cases b) (auto simp: prefix_def)
    then have "x \<in> set us" using \<open>us \<noteq> []\<close> by (metis hd_in_set)
    then show False using us(1) assms(1,2) by auto
  qed
  with Cons.IH [OF ns] show ?case by (simp add: sublist_Cons_right)
qed


lemma marker_eq_imp_marker:
  "sublist ''request_token='' s \<Longrightarrow> sublist ''request_token'' s"
proof -
  assume "sublist ''request_token='' s"
  then obtain ps ss where "s = ps @ ''request_token='' @ ss" by (auto simp: sublist_def)
  then have "s = ps @ ''request_token'' @ (''='' @ ss)" by simp
  then show ?thesis unfolding sublist_def by blast
qed

lemma py_index_split_first:
  assumes "sep = x # b" and "x \<notin> set b" and "\<not> sublist sep pre"
  shows "py_index (py_split (pre @ sep @ r) sep) 1 = Inr (hd (py_split r sep))"
proof -
  have "sep \<noteq> []" using assms(1) by simp
  from py_split_first [OF this no_early_occurrence [OF assms]]
  have "py_split (pre @ sep @ r) sep = pre # py_split r sep" .
  then show ?thesis
    using py_split_not_Nil [of r sep]
    by (cases "py_split r sep") (simp_all add: py_index_def)
qed

lemma py_index_split_char: "py_index (py_split a [c]) 0 = Inr (takeWhile (\<lambda>x. x \<noteq> c) a)"
  using py_split_not_Nil [of a "[c]"] hd_py_split_char [of a c]
  by (cases "py_split a [c]") (simp_all add: py_index_def)

lemma extract_marker_eq:
  assumes "\<not> sublist ''request_token='' pre"
  shows "extract_request_token (pre @ ''request_token='' @ r) =
    Inr (takeWhile (\<lambda>x. x \<noteq> CHR ''&'') (hd (py_split r ''request_token='')))"
proof -
  have "py_in ''request_token='' (pre @ ''request_token='' @ r)"
    unfolding py_in_def by (rule sublist_appendI)
  moreover have "py_index (py_split (pre @ ''request_token='' @ r) ''request_token='') 1
      = Inr (hd (py_split r ''request_token=''))"
    by (rule py_index_split_first [where x = "CHR ''r''" and b = "''equest_token=''"])
      (simp_all add: assms)
  ultimately show ?thesis
    unfolding extract_request_token_def by (simp only: if_True sum.case py_index_split_char)
qed

lemma extract_marker_bare:
  assumes "\<not> sublist ''request_token='' (pre @ ''request_token'' @ r)"
    and "\<not> sublist ''request_token'' pre"
  shows "extract_request_token (pre @ ''request_token'' @ r) =
    Inr (lstrip (hd (py_split r ''request_token'')) ''=&#?/'')"
proof -
  have "py_in ''request_token'' (pre @ ''request_token'' @ r)"
    unfolding py_in_def by (rule sublist_appendI)
  moreover have "\<not> py_in ''request_token='' (pre @ ''request_token'' @ r)"
    unfolding py_in_def by (rule assms(1))
  moreover have "1 < length (py_split (pre @ ''request_token'' @ r) ''request_token'')"
    using length_py_split_occurrence [of "''request_token''" "pre @ ''request_token'' @ r"]
      sublist_appendI [of "''request_token''" pre r] by simp
  moreover have "py_index (py_split (pre @ ''request_token'' @ r) ''request_token'') 1
      = Inr (hd (py_split r ''request_token''))"
    by (rule py_index_split_first [where x = "CHR ''r''" and b = "''equest_token''"])
      (simp_all add: assms)
  ultimately show ?thesis
    unfolding extract_request_token_def Let_def by (simp only: if_True if_False sum.case)
qed

lemma hd_py_split_segment:
  assumes "sep = x # b" and "x \<notin> set b" and "\<not> sublist sep seg"
    and "rest = [] \<or> prefix sep rest"
  shows "hd (py_split (seg @ rest) sep) = seg"
proof (cases "rest = []")
  case True
  then show ?thesis using py_split_no_occurrence [OF assms(3)] by simp
next
  case False
  then obtain r where "rest = sep @ r" using assms(4) by (auto simp: prefix_def)
  moreover have "sep \<noteq> []" using assms(1) by simp
  from py_split_first [OF this no_early_occurrence [OF assms(1-3)]]
  have "py_split (seg @ sep @ r) sep = seg # py_split r sep" .
  ultimately show ?thesis by simp
qed

section \<open>The trace logic\<close>

lemma emitsI:
  assumes "\<And>s r s'. m s = (r, s') \<Longrightarrow> \<exists>evs. trace s' = trace s @ evs \<and> Q r evs"
  shows "emits m Q"
  unfolding emits_def
proof
  fix s
  obtain r s' where "m s = (r, s')" by (cases "m s")
  with assms [OF this] show "\<exists>evs. trace (snd (m s)) = trace s @ evs \<and> Q (fst (m s)) evs"
    by simp
qed

lemma emitsD:
  assumes "emits m Q" and "m s = (r, s')"
  shows "\<exists>evs. trace s' = trace s @ evs \<and> Q r evs"
  using assms(1) [unfolded emits_def, rule_format, of s] assms(2) by simp

lemma emits_weaken:
  assumes "emits m Q" and "\<And>r evs. Q r evs \<Longrightarrow> Q' r evs"
  shows "emits m Q'"
  using assms unfolding emits_def by blast

lemma emits_ret: "Q (Inr x) [] \<Longrightarrow> emits (ret x) Q"
  by (simp add: emits_def ret_def)

lemma emits_raise: "Q (Inl e) [] \<Longrightarrow> emits (raise e) Q"
  by (simp add: emits_def raise_def)

lemma emits_lift: "Q r [] \<Longrightarrow> emits (lift r) Q"
  by (simp add: emits_def lift_def)

lemma emits_call: "(\<And>r. Q r [ev r]) \<Longrightarrow> emits (call ev op) Q"
  by (simp add: emits_def call_def split: prod.splits)

lemma emits_sleep: "Q (Inr ()) [Sleep ms] \<Longrightarrow> emits (sleep env ms) Q"
  by (simp add: emits_def sleep_def)

lemma emits_utcnow: "(\<And>t. Q (Inr t) [UtcNow t]) \<Longrightarrow> emits (utcnow env) Q"
  by (simp add: emits_def utcnow_def)

lemma emits_bnd:
  assumes "emits m Q1" and "\<And>x. emits (f x) (Q2 x)"
    and "\<And>e evs. Q1 (Inl e) evs \<Longrightarrow> Q (Inl e) evs"
    and "\<And>x e1 r e2. Q1 (Inr x) e1 \<Longrightarrow> Q2 x r e2 \<Longrightarrow> Q r (e1 @ e2)"
  shows "emits (bnd m f) Q"
proof (rule emitsI)
  fix s r s'
  assume run: "bnd m f s = (r, s')"
  obtain r1 s1 where m: "m s = (r1, s1)" by (cases "m s")
  from emitsD [OF assms(1) m] obtain e1 where e1: "trace s1 = trace s @ e1" "Q1 r1 e1" by blast
  show "\<exists>evs. trace s' = trace s @ evs \<and> Q r evs"
  proof (cases r1)
    case (Inl e)
    with run m have "r = Inl e" "s' = s1" by (simp_all add: bnd_def)
    with e1 Inl assms(3) show ?thesis by auto
  next
    case (Inr x)
    with run m have f: "f x s1 = (r, s')" by (simp add: bnd_def)
    from emitsD [OF assms(2) f] obtain e2 where e2: "trace s' = trace s1 @ e2" "Q2 x r e2" by blast
    have "trace s' = trace s @ (e1 @ e2)" using e1(1) e2(1) by simp
    moreover have "Q r (e1 @ e2)" using assms(4) e1(2) e2(2) Inr by simp
    ultimately show ?thesis by blast
  qed
qed

lemma emits_try_except:
  assumes "emits m Q1" and "\<And>e. emits (h e) (Q2 e)"
    and "\<And>x evs. Q1 (Inr x) evs \<Longrightarrow> Q (Inr x) evs"
    and "\<And>e e1 r e2. Q1 (Inl e) e1 \<Longrightarrow> Q2 e r e2 \<Longrightarrow> Q r (e1 @ e2)"
  shows "emits (try_except m h) Q"
proof (rule emitsI)
  fix s r s'
  assume run: "try_except m h s = (r, s')"
  obtain r1 s1 where m: "m s = (r1, s1)" by (cases "m s")
  from emitsD [OF assms(1) m] obtain e1 where e1: "trace s1 = trace s @ e1" "Q1 r1 e1" by blast
  show "\<exists>evs. trace s' = trace s @ evs \<and> Q r evs"
  proof (cases r1)
    case (Inr x)
    with run m have "r = Inr x" "s' = s1" by (simp_all add: try_except_def)
    with e1 Inr assms(3) show ?thesis by auto
  next
    case (Inl e)
    with run m have f: "h e s1 = (r, s')" by (simp add: try_except_def)
    from emitsD [OF assms(2) f] obtain e2 where e2: "trace s' = trace s1 @ e2" "Q2 e r e2" by blast
    have "trace s' = trace s @ (e1 @ e2)" using e1(1) e2(1) by simp
    moreover have "Q r (e1 @ e2)" using assms(4) e1(2) e2(2) Inl by simp
    ultimately show ?thesis by blast
  qed
qed

lemma emits_try_finally:
  assumes "emits m Q1" and "emits fin Q2"
    and "\<And>r e1 e e2. Q1 r e1 \<Longrightarrow> Q2 (Inl e) e2 \<Longrightarrow> Q (Inl e) (e1 @ e2)"
    and "\<And>r e1 e2. Q1 r e1 \<Longrightarrow> Q2 (Inr ()) e2 \<Longrightarrow> Q r (e1 @ e2)"
  shows "emits (try_finally m fin) Q"
proof (rule emitsI)
  fix s r s'
  assume run: "try_finally m fin s = (r, s')"
  obtain r1 s1 where m: "m s = (r1, s1)" by (cases "m s")
  obtain r2 s2 where f: "fin s1 = (r2, s2)" by (cases "fin s1")
  from emitsD [OF assms(1) m] obtain e1 where e1: "trace s1 = trace s @ e1" "Q1 r1 e1" by blast
  from emitsD [OF assms(2) f] obtain e2 where e2: "trace s2 = trace s1 @ e2" "Q2 r2 e2" by blast
  have s': "s' = s2" using run m f by (cases r2) (simp_all add: try_finally_def)
  have tr: "trace s' = trace s @ (e1 @ e2)" using e1(1) e2(1) s' by simp
  have "Q r (e1 @ e2)"
  proof (cases r2)
    case (Inl e)
    then have "r = Inl e" using run m f by (simp add: try_finally_def)
    then show ?thesis using assms(3) e1(2) e2(2) Inl by simp
  next
    case (Inr u)
    then have "r = r1" using run m f by (simp add: try_finally_def)
    then show ?thesis using assms(4) e1(2) e2(2) Inr by simp
  qed
  with tr show "\<exists>evs. trace s' = trace s @ evs \<and> Q r evs" by blast
qed

lemma emits_if:
  "(c \<Longrightarrow> emits m Q) \<Longrightarrow> (\<not> c \<Longrightarrow> emits n Q) \<Longrightarrow> emits (if c then m else n) Q"
  by simp

lemma only_ret: "only P (ret x)"
  unfolding only_def by (rule emits_ret) simp

lemma only_raise: "only P (raise e)"
  unfolding only_def by (rule emits_raise) simp

lemma only_lift: "only P (lift r)"
  unfolding only_def by (rule emits_lift) simp

lemma only_call: "(\<And>r. P (ev r)) \<Longrightarrow> only P (call ev op)"
  unfolding only_def by (rule emits_call) simp

lemma only_sleep: "P (Sleep ms) \<Longrightarrow> only P (sleep env ms)"
  unfolding only_def by (rule emits_sleep) simp

lemma only_utcnow: "(\<And>t. P (UtcNow t)) \<Longrightarrow> only P (utcnow env)"
  unfolding only_def by (rule emits_utcnow) simp

lemma only_bnd: "only P m \<Longrightarrow> (\<And>x. only P (f x)) \<Longrightarrow> only P (bnd m f)"
  unfolding only_def by (rule emits_bnd [where ?Q2.0 = "\<lambda>x r evs. list_all P evs"]) simp_all

lemma only_try_except: "only P m \<Longrightarrow> (\<And>e. only P (h e)) \<Longrightarrow> only P (try_except m h)"
  unfolding only_def by (rule emits_try_except [where ?Q2.0 = "\<lambda>x r evs. list_all P evs"]) simp_all

lemma only_try_finally: "only P m \<Longrightarrow> only P fin \<Longrightarrow> only P (try_finally m fin)"
  unfolding only_def
  by (rule emits_try_finally [where ?Q1.0 = "\<lambda>r. list_all P" and ?Q2.0 = "\<lambda>r. list_all P"])
    simp_all

lemma only_suppress: "only P m \<Longrightarrow> only P (suppress m)"
  unfolding suppress_def by (rule only_try_except) (simp_all add: only_ret)

lemma only_if: "(c \<Longrightarrow> only P m) \<Longrightarrow> (\<not> c \<Longrightarrow> only P n) \<Longrightarrow> only P (if c then m else n)"
  by simp

lemma only_find_elements: "(\<And>r. P (FindElements d loc r)) \<Longrightarrow> only P (find_elements env d loc)"
  unfolding find_elements_def by (rule only_call)

lemma only_find_element: "(\<And>r. P (FindElement d loc r)) \<Longrightarrow> only P (find_element env d loc)"
  unfolding find_element_def by (rule only_call)

lemma only_current_url: "(\<And>r. P (CurrentUrl d r)) \<Longrightarrow> only P (current_url env d)"
  unfolding current_url_def by (rule only_call)

lemma only_mono: "only P m \<Longrightarrow> (\<And>ev. P ev \<Longrightarrow> P' ev) \<Longrightarrow> only P' m"
  unfolding only_def by (erule emits_weaken) (auto simp: list_all_iff)

section \<open>Lower case and the condition of the wait\<close>

lemma upper_codes: "map (of_char :: char \<Rightarrow> nat) upper_letters = [65..<91]"
  by code_simp

lemma lower_from_upper:
  "lower_letters = map (\<lambda>c. char_of ((of_char c :: nat) + 32)) upper_letters"
  by code_simp

lemma upper_iff: "c \<in> set upper_letters \<longleftrightarrow> 65 \<le> (of_char c :: nat) \<and> (of_char c :: nat) \<le> 90"
proof -
  have "c \<in> set upper_letters \<longleftrightarrow> (of_char c :: nat) \<in> of_char ` set upper_letters"
    by (auto simp: image_iff)
  also have "of_char ` set upper_letters = set (map (of_char :: char \<Rightarrow> nat) upper_letters)"
    by simp
  also have "\<dots> = {65..<91}"
    unfolding upper_codes by (rule set_upt)
  finally show ?thesis by auto
qed

lemma translate_char:
  "map_of (zip upper_letters
      (map Some lower_letters @ replicate (length upper_letters - length lower_letters) None)) c
     = (if c \<in> set upper_letters then Some (Some (ascii_lower c)) else None)"
proof -
  have len: "length upper_letters - length lower_letters = 0"
    by (simp add: lower_from_upper)
  have "map Some lower_letters
      = map (\<lambda>c. Some (char_of ((of_char c :: nat) + 32))) upper_letters"
    by (subst lower_from_upper) simp
  then have "map_of (zip upper_letters
      (map Some lower_letters @ replicate (length upper_letters - length lower_letters) None)) c
     = (if c \<in> set upper_letters then Some (Some (char_of ((of_char c :: nat) + 32))) else None)"
    by (simp only: len replicate_0 append_Nil2 map_of_zip_map)
  then show ?thesis
    by (simp add: upper_iff ascii_lower_def Let_def)
qed

lemma ascii_lower_other: "c \<notin> set upper_letters \<Longrightarrow> ascii_lower c = c"
  by (auto simp: upper_iff ascii_lower_def Let_def)

lemma translate_lower: "translate s upper_letters lower_letters = map ascii_lower s"
proof (induction s)
  case Nil
  then show ?case by (simp add: translate_def)
next
  case (Cons c s)
  have "translate (c # s) upper_letters lower_letters
      = (case map_of (zip upper_letters (map Some lower_letters @ replicate (length upper_letters - length lower_letters) None)) c of
          None \<Rightarrow> [c] | Some None \<Rightarrow> [] | Some (Some d) \<Rightarrow> [d]) @ translate s upper_letters lower_letters"
    by (simp add: translate_def)
  also have "\<dots> = [ascii_lower c] @ map ascii_lower s"
    using Cons.IH by (simp add: translate_char ascii_lower_other)
  finally show ?case by simp
qed

lemma selects_submit: "selects submit_xpath = is_submit_button"
  by (rule ext) (simp add: submit_xpath_def is_submit_button_def)

lemma selects_login_text: "selects login_text_xpath = has_login_text"
  by (rule ext) (simp add: login_text_xpath_def has_login_text_def translate_lower)


lemma redirect_condition_eq: "redirect_condition = url_contains ''request_token''"
  by (simp add: redirect_condition_def py_or_def condition_truthy_def)

section \<open>The events of each step\<close>

lemmas only_intros =
  only_bnd only_try_except only_try_finally only_suppress only_call only_sleep only_ret
  only_raise only_lift only_find_elements only_find_element only_current_url only_utcnow

lemma only_fill_field: "only before_code (fill_field env d loc v)"
  unfolding fill_field_def by (intro only_intros; simp)

lemma only_login_submit: "only quiet (login_submit env d)"
  unfolding login_submit_def
  by (intro only_intros only_if; simp)

lemma only_totp_entry_loop: "only (sends_only k) (totp_entry_loop env d k as box)"
proof (induction as arbitrary: box)
  case Nil
  show ?case by (simp add: only_ret)
next
  case (Cons a as)
  show ?case
    unfolding totp_entry_loop.simps
    by (intro only_intros only_if Cons.IH; simp)
qed

lemma only_totp_submit_loop: "only quiet (totp_submit_loop env d as)"
proof (induction as)
  case Nil
  show ?case by (simp add: only_ret)
next
  case (Cons a as)
  show ?case
    unfolding totp_submit_loop.simps
    by (intro only_intros only_if Cons.IH; simp)
qed

lemma only_poll_until: "only quiet (poll_until env d c n)"
proof (induction n)
  case 0
  show ?case by (simp add: only_raise)
next
  case (Suc n)
  obtain t where c: "c = url_contains t" by (cases c)
  show ?case
    unfolding poll_until.simps c apply_condition.simps
    by (intro only_intros only_if Suc.IH [unfolded c]; simp)
qed

lemma only_exchange: "only quiet (exchange env cfg rt)"
  unfolding exchange_def by (intro only_intros; simp)

lemma only_complete_login: "only quiet (complete_login env cfg d)"
  unfolding complete_login_def wait_until_def
  by (intro only_intros only_poll_until only_exchange; simp)


lemma quiet_in_session: "quiet ev \<Longrightarrow> in_session ev"
  by simp

lemma sends_only_in_session: "sends_only k ev \<Longrightarrow> in_session ev"
  by (cases ev) simp_all

lemma before_code_in_session: "before_code ev \<Longrightarrow> in_session ev"
  by simp

lemma in_session_parts:
  "only in_session (fill_field env d loc v)"
  "only in_session (login_submit env d)"
  "only in_session (totp_entry_loop env d k as box)"
  "only in_session (totp_submit_loop env d as)"
  "only in_session (complete_login env cfg d)"
proof -
  show "only in_session (fill_field env d loc v)"
    by (rule only_mono [OF only_fill_field]) (rule before_code_in_session)
  show "only in_session (login_submit env d)"
    by (rule only_mono [OF only_login_submit]) (rule quiet_in_session)
  show "only in_session (totp_entry_loop env d k as box)"
    by (rule only_mono [OF only_totp_entry_loop]) (rule sends_only_in_session)
  show "only in_session (totp_submit_loop env d as)"
    by (rule only_mono [OF only_totp_submit_loop]) (rule quiet_in_session)
  show "only in_session (complete_login env cfg d)"
    by (rule only_mono [OF only_complete_login]) (rule quiet_in_session)
qed

lemma only_totp_step: "only in_session (totp_step env cfg d)"
  unfolding totp_step_def
  by (intro only_intros in_session_parts; simp)

lemma only_login_body: "only in_session (login_body env cfg d)"
  unfolding login_body_def
  by (intro only_bnd only_call only_sleep only_totp_step in_session_parts; simp)

lemma in_session_lists:
  assumes "list_all in_session evs"
  shows "sessions_started evs = []" and "sessions_quit evs = []" and "retry_delays evs = []"
    and "list_all (\<lambda>ev. \<not> is_retry_wait ev) evs" and "list_all (\<lambda>ev. \<not> is_persistence ev) evs"
proof -
  have "started ev = [] \<and> quitted ev = [] \<and> delay_of ev = [] \<and> \<not> is_retry_wait ev
      \<and> \<not> is_persistence ev" if "in_session ev" for ev
    using that by (cases ev) simp_all
  with assms show "sessions_started evs = []" "sessions_quit evs = []" "retry_delays evs = []"
    "list_all (\<lambda>ev. \<not> is_retry_wait ev) evs" "list_all (\<lambda>ev. \<not> is_persistence ev) evs"
    by (simp_all add: sessions_started_def sessions_quit_def retry_delays_def list_all_iff)
qed

lemma is_launch_lists:
  assumes "list_all is_launch evs"
  shows "sessions_quit evs = []" and "retry_delays evs = []"
    and "list_all (\<lambda>ev. \<not> is_retry_wait ev) evs" and "list_all (\<lambda>ev. \<not> is_persistence ev) evs"
    and "list_all (\<lambda>ev. \<not> is_totp_now ev \<and> \<not> is_send_keys ev) evs"
proof -
  have "quitted ev = [] \<and> delay_of ev = [] \<and> \<not> is_retry_wait ev
      \<and> \<not> is_persistence ev \<and> \<not> is_totp_now ev \<and> \<not> is_send_keys ev" if "is_launch ev" for ev
    using that by (cases ev) simp_all
  with assms show "sessions_quit evs = []" "retry_delays evs = []"
    "list_all (\<lambda>ev. \<not> is_retry_wait ev) evs" "list_all (\<lambda>ev. \<not> is_persistence ev) evs"
    "list_all (\<lambda>ev. \<not> is_totp_now ev \<and> \<not> is_send_keys ev) evs"
    by (simp_all add: sessions_quit_def retry_delays_def list_all_iff)
qed

lemma emits_launch:
  "emits (launch env cfg)
     (\<lambda>r evs. list_all is_launch evs \<and>
        sessions_started evs = (case r of Inl e \<Rightarrow> [] | Inr d \<Rightarrow> [d]))"
  by (rule emitsI)
    (auto simp: launch_def bnd_def try_except_def call_def ret_def raise_def
      sessions_started_def split: prod.splits sum.splits option.splits if_splits)

section \<open>Running the model\<close>

text \<open>
  Equations for running a computation from a given state: each combinator is unfolded
  only once it is applied to a state, and the congruence rules keep the simplifier out
  of the parts of the program that have not been reached.
\<close>

lemma bnd_apply:
  "bnd m f s = (case m s of (Inl e, s1) \<Rightarrow> (Inl e, s1) | (Inr x, s1) \<Rightarrow> f x s1)"
  by (simp add: bnd_def)

lemma try_except_apply:
  "try_except m h s = (case m s of (Inl e, s1) \<Rightarrow> h e s1 | (Inr x, s1) \<Rightarrow> (Inr x, s1))"
  by (simp add: try_except_def)

lemma try_finally_apply:
  "try_finally m fin s =
     (case m s of (r, s1) \<Rightarrow>
        (case fin s1 of (Inl e, s2) \<Rightarrow> (Inl e, s2) | (Inr u, s2) \<Rightarrow> (r, s2)))"
  by (simp add: try_finally_def)

lemma bnd_state_cong: "s = s' \<Longrightarrow> bnd m f s = bnd m f s'"
  by simp

lemma try_except_state_cong: "s = s' \<Longrightarrow> try_except m h s = try_except m h s'"
  by simp

lemma try_finally_state_cong: "s = s' \<Longrightarrow> try_finally m fin s = try_finally m fin s'"
  by simp

lemma retry_call_state_cong:
  "n = n' \<Longrightarrow> s = s' \<Longrightarrow> retry_call env stop wait fn n s = retry_call env stop wait fn n' s'"
  by simp

lemmas run_congs = bnd_state_cong try_except_state_cong try_finally_state_cong retry_call_state_cong

lemma totp_entry_loop_apply:
  "totp_entry_loop env d authkey [] box s = (Inr (), s)"
  "totp_entry_loop env d authkey (attempt # rest) box s =
     try_except
       (bnd (call (Clear box) (clear_field env box)) (\<lambda>u.
          call (SendKeys box authkey) (send_keys_to env box authkey)))
       (\<lambda>e. if attempt < max_retries - 1
            then bnd (sleep env 1000) (\<lambda>u.
                 bnd (find_element env d totp_xpath) (\<lambda>totp_box.
                   totp_entry_loop env d authkey rest totp_box))
            else raise e) s"
  by (simp_all add: ret_def)

lemmas totp_submit_loop_apply =
  totp_submit_loop.simps(1) [THEN fun_cong] totp_submit_loop.simps(2) [THEN fun_cong]

lemmas poll_until_apply =
  poll_until.simps(1) [THEN fun_cong] poll_until.simps(2) [THEN fun_cong]

lemmas apply_condition_apply = apply_condition.simps [THEN fun_cong]

lemma poll_until_numeral:
  "poll_until env d c (numeral k) s =
     bnd (apply_condition env d c) (\<lambda>v.
       if v then ret ()
       else bnd (sleep env 500) (\<lambda>u. poll_until env d c (pred_numeral k))) s"
  by (simp add: numeral_eq_Suc)

lemma attempts_range: "[0..<max_retries] = [0, 1, 2]" "[0..<(3::nat)] = [0, 1, 2]"
  by code_simp+

lemmas run_defs =
  ret_def raise_def lift_def bnd_apply try_except_apply try_finally_apply
  suppress_def [THEN fun_cong] call_def
  sleep_def retry_wait_def find_elements_def find_element_def current_url_def utcnow_def
  wait_until_def [THEN fun_cong] redirect_condition_eq launch_def [THEN fun_cong]
  fill_field_def [THEN fun_cong] login_submit_def [THEN fun_cong] exchange_def [THEN fun_cong]
  complete_login_def [THEN fun_cong] totp_step_def [THEN fun_cong]
  login_body_def [THEN fun_cong] login_once_def [THEN fun_cong] login_def [THEN fun_cong]
  retry_call.simps save_token_to_mongo_def [THEN fun_cong] main_def
  totp_entry_loop_apply totp_submit_loop_apply poll_until_apply apply_condition_apply
  userid_xpath_def password_xpath_def submit_xpath_def login_text_xpath_def totp_xpath_def
  continue_xpath_def continue_lower_xpath_def translate_lower ascii_lower_def
  py_in_def sublist_Cons_right extract_request_token_def py_index_def py_getitem_def lstrip_def
  max_retries_def make_chrome_options_def env_truthy_def poll_until_numeral attempts_range
  MONGO_DB_NAME_def MONGO_COLLECTION_NAME_def TOKEN_UPDATED_BY_def timedelta_hours_def
  token_not_found_def submit_not_found_def totp_submit_not_found_def

lemmas run_dels =
  totp_entry_loop.simps totp_submit_loop.simps poll_until.simps apply_condition.simps

lemmas sim_defs =
  sim_env_def sim_cfg_def sim_start_def
  userid_box_def password_box_def totp_box_def submit_button_def sign_in_button_def

section \<open>The request token in the URL\<close>

text \<open>
  Claim C2. When the URL is \<open>pre\<close>, then the marker \<^verbatim>\<open>request_token=\<close>, then a code,
  then either nothing or a rest that starts with \<^verbatim>\<open>&\<close>, the extraction yields exactly
  that code, without the separator. The URL is well formed in that the marker does not
  occur before (so that this occurrence is the one the code belongs to), and the code
  contains neither \<^verbatim>\<open>&\<close> nor the marker.
\<close>

theorem extract_clean:
  assumes "\<not> sublist ''request_token='' pre"
    and "\<not> sublist ''request_token='' code"
    and "CHR ''&'' \<notin> set code"
    and "rest = [] \<or> hd rest = CHR ''&''"
  shows "extract_request_token (pre @ ''request_token='' @ code @ rest) = Inr code"
proof -
  have tw: "takeWhile (\<lambda>x. x \<noteq> CHR ''&'') (code @ rest) = code"
    using assms(3,4) by (cases rest) (auto simp: takeWhile_append1 takeWhile_append2 takeWhile_tail)
  have "takeWhile (\<lambda>x. x \<noteq> CHR ''&'') (hd (py_split (code @ rest) ''request_token=''))
      = takeWhile (\<lambda>x. x \<noteq> CHR ''&'') (code @ rest)"
    by (rule takeWhile_hd_py_split) (simp_all add: tw assms(2))
  then show ?thesis by (simp only: extract_marker_eq [OF assms(1)] tw)
qed

theorem extract_clean_witness:
  "extract_request_token ''https://kite.zerodha.com/?request_token=abc123&status=success'' = Inr ''abc123''"
  using extract_clean [of "''https://kite.zerodha.com/?''" "''abc123''" "''&status=success''"]
  by (simp add: sublist_Cons_right)

text \<open>
  Claim C3, as amended. For a URL that contains \<^verbatim>\<open>request_token\<close> but not
  \<^verbatim>\<open>request_token=\<close>, the extraction takes the text between the first occurrence of
  \<^verbatim>\<open>request_token\<close> and the next one (the end of the URL when there is no other),
  and strips the leading characters among \<^verbatim>\<open>=&#?/\<close> from it. Here \<open>pre\<close> is the
  text before the first occurrence and \<open>seg\<close> the text up to the next.
\<close>

theorem extract_bare:
  assumes "\<not> py_in ''request_token='' (pre @ ''request_token'' @ seg @ rest)"
    and "\<not> py_in ''request_token'' pre"
    and "\<not> py_in ''request_token'' seg"
    and "rest = [] \<or> prefix ''request_token'' rest"
  shows "extract_request_token (pre @ ''request_token'' @ seg @ rest) = Inr (lstrip seg ''=&#?/'')"
proof -
  have h: "hd (py_split (seg @ rest) ''request_token'') = seg"
    by (rule hd_py_split_segment [where x = "CHR ''r''" and b = "''equest_token''"])
      (use assms(3,4) in \<open>simp_all add: py_in_def\<close>)
  have a: "\<not> sublist ''request_token='' (pre @ ''request_token'' @ seg @ rest)"
    using assms(1) unfolding py_in_def .
  have b: "\<not> sublist ''request_token'' pre"
    using assms(2) unfolding py_in_def .
  from extract_marker_bare [OF a b] show ?thesis unfolding h .
qed

theorem extract_bare_witness:
  "extract_request_token ''https://kite.zerodha.com/request_token#xyz789'' = Inr ''xyz789''
   \<and> extract_request_token ''https://x/request_token#xyz/request_token/y'' = Inr ''xyz/''"
  using extract_bare [of "''https://kite.zerodha.com/''" "''#xyz789''" "[]"]
    extract_bare [of "''https://x/''" "''#xyz/''" "''request_token/y''"]
  by (simp add: py_in_def sublist_Cons_right lstrip_def)

text \<open>
  Claim C3 as stated fails: with a second occurrence of \<^verbatim>\<open>request_token\<close>, the result
  is not everything that follows the first occurrence, stripped.
\<close>

theorem extract_bare_counterexample:
  "py_in ''request_token'' (''https://x/'' @ ''request_token'' @ ''#xyz/request_token/y'')
   \<and> \<not> py_in ''request_token='' (''https://x/'' @ ''request_token'' @ ''#xyz/request_token/y'')
   \<and> \<not> py_in ''request_token'' ''https://x/''
   \<and> extract_request_token (''https://x/'' @ ''request_token'' @ ''#xyz/request_token/y'')
       \<noteq> Inr (lstrip ''#xyz/request_token/y'' ''=&#?/'')"
  by (simp add: py_in_def sublist_Cons_right lstrip_def extract_request_token_def py_index_def)

text \<open>
  Claim C4. A URL that does not contain \<^verbatim>\<open>request_token\<close> yields no token: the
  extraction raises the exception \<^verbatim>\<open>Request token not found in URL; login failed?\<close>.
\<close>

theorem extract_not_found:
  "\<not> py_in ''request_token'' rt_url \<Longrightarrow> extract_request_token rt_url = Inl token_not_found"
  using marker_eq_imp_marker [of rt_url] by (auto simp: extract_request_token_def py_in_def)

theorem extract_not_found_witness:
  "extract_request_token ''https://kite.zerodha.com/?status=success'' = Inl token_not_found"
  using extract_not_found [of "''https://kite.zerodha.com/?status=success''"]
  by (simp add: py_in_def sublist_Cons_right)

text \<open>
  Claim C9. For a URL that contains \<^verbatim>\<open>request_token\<close>, the split has at least two
  parts, so the guarded \<^verbatim>\<open>raise\<close> of the second branch is never reached and the
  extraction returns a string. A URL that ends with its only marker, with or without
  \<^verbatim>\<open>=\<close>, yields the empty string.
\<close>

theorem extract_marker_total:
  "(py_in ''request_token'' rt_url \<longrightarrow>
      1 < length (py_split rt_url ''request_token'')
      \<and> (\<exists>rt. extract_request_token rt_url = Inr rt))
   \<and> (\<not> py_in ''request_token'' pre \<longrightarrow>
      extract_request_token (pre @ ''request_token'') = Inr []
      \<and> extract_request_token (pre @ ''request_token='') = Inr [])"
proof (intro conjI impI)
  assume m: "py_in ''request_token'' rt_url"
  then show len: "1 < length (py_split rt_url ''request_token'')"
    using length_py_split_occurrence [of "''request_token''" rt_url] by (simp add: py_in_def)
  show "\<exists>rt. extract_request_token rt_url = Inr rt"
  proof (cases "py_in ''request_token='' rt_url")
    case True
    then have "1 < length (py_split rt_url ''request_token='')"
      using length_py_split_occurrence [of "''request_token=''" rt_url] by (simp add: py_in_def)
    then show ?thesis using True py_split_not_Nil [of "py_split rt_url ''request_token='' ! 1" "''&''"]
      by (simp add: extract_request_token_def py_index_def)
  next
    case False
    then show ?thesis using m len by (simp add: extract_request_token_def py_index_def)
  qed
next
  assume n: "\<not> py_in ''request_token'' pre"
  then have ne: "\<not> sublist ''request_token='' pre"
    using marker_eq_imp_marker [of pre] by (auto simp: py_in_def)
  have "\<not> sublist ''request_token='' (pre @ butlast ''request_token='')"
    by (rule no_early_occurrence [where x = "CHR ''r''" and b = "''equest_token=''"])
      (simp_all add: ne)
  then have "\<not> py_in ''request_token='' (pre @ ''request_token'' @ [] @ [])"
    by (simp add: py_in_def)
  from extract_bare [OF this n]
  show "extract_request_token (pre @ ''request_token'') = Inr []"
    by (simp add: py_in_def lstrip_def)
  from extract_marker_eq [OF ne, of "[]"]
  show "extract_request_token (pre @ ''request_token='') = Inr []" by simp
qed

theorem extract_marker_total_witness:
  "1 < length (py_split ''https://x/request_token'' ''request_token'')
   \<and> (\<exists>rt. extract_request_token ''https://x/request_token'' = Inr rt)
   \<and> extract_request_token (''https://x/'' @ ''request_token'') = Inr []
   \<and> extract_request_token (''https://x/'' @ ''request_token='') = Inr []"
  using extract_marker_total [of "''https://x/request_token''" "''https://x/''"]
  by (simp add: py_in_def sublist_Cons_right)

section \<open>The wait for the redirect\<close>

lemma poll_until_no_request_token:
  assumes "\<And>w. \<exists>u w1. read_current_url env d w = (Inr u, w1) \<and> \<not> py_in ''request_token'' u"
  shows "fst (poll_until env d redirect_condition n s) = Inl TimeoutException"
proof (induction n arbitrary: s)
  case 0
  show ?case by (simp add: raise_def)
next
  case (Suc n)
  obtain u w1 where u: "read_current_url env d (world s) = (Inr u, w1)"
    "\<not> py_in ''request_token'' u"
    using assms by blast
  then show ?case
    using Suc.IH
    by (simp add: redirect_condition_eq bnd_def current_url_def call_def ret_def sleep_def)
qed

text \<open>
  Claim C1 fails on the code. The argument of the wait is the first condition alone: a
  function object is truthy, so \<^verbatim>\<open>or\<close> never looks at the second. With a URL that
  stays at \<^verbatim>\<open>status=success\<close> and has no \<^verbatim>\<open>request_token\<close>, the wait ends in
  \<^verbatim>\<open>TimeoutException\<close>, while the test of the same two markers a few lines above
  (lines 361 to 364) takes the same URL as a success.
\<close>

theorem redirect_wait_misses_status_success:
  "redirect_condition = url_contains ''request_token''
   \<and> fst (wait_until sim_env 0 redirect_condition
        (sim_start [] [''https://kite.zerodha.com/?status=success''] 0)) = Inl TimeoutException
   \<and> fst (totp_submit_loop sim_env 0 [0..<max_retries]
        (sim_start [] [''https://kite.zerodha.com/?status=success''] 0)) = Inr ()"
proof (intro conjI)
  show "redirect_condition = url_contains ''request_token''"
    by (rule redirect_condition_eq)
  show "fst (wait_until sim_env 0 redirect_condition
        (sim_start [] [''https://kite.zerodha.com/?status=success''] 0)) = Inl TimeoutException"
    by code_simp
  show "fst (totp_submit_loop sim_env 0 [0..<max_retries]
        (sim_start [] [''https://kite.zerodha.com/?status=success''] 0)) = Inr ()"
    by code_simp
qed

section \<open>The submit of the first screen\<close>

text \<open>
  Claim C7. The first screen is submitted in a fixed order of fallbacks. \<open>els\<close> is the
  page at the first query and \<open>w1\<close> the world after it. When the page has a
  submit-typed button, the first of them is clicked: the step ends in the outcome and the
  world of that one call of \<^verbatim>\<open>click\<close>. Otherwise the page is queried again
  (\<open>els2\<close>, leaving the world \<open>w2\<close>): when it has a button whose text contains
  \<^verbatim>\<open>login\<close> or \<^verbatim>\<open>sign in\<close>, whatever the case, the first of them is clicked in
  the same way; when it has none, the step raises \<^verbatim>\<open>Login submit button not found\<close>
  and the world is the one the second query left, so nothing has been clicked.
\<close>

theorem login_submit_order:
  assumes "login_submit env d s = (r, s')"
    and "page_elements env d (world s) = (Inr els, w1)"
  shows "(filter is_submit_button els \<noteq> [] \<longrightarrow>
      (r, world s') = click_on env (hd (filter is_submit_button els)) w1 \<and>
      trace s' = trace s @
        [FindElements d submit_xpath (Inr (filter is_submit_button els)),
         Click (hd (filter is_submit_button els)) r])
    \<and> (filter is_submit_button els = [] \<longrightarrow>
      (\<forall>els2 w2. page_elements env d w1 = (Inr els2, w2) \<longrightarrow>
         (filter has_login_text els2 \<noteq> [] \<longrightarrow>
            (r, world s') = click_on env (hd (filter has_login_text els2)) w2 \<and>
            trace s' = trace s @
              [FindElements d submit_xpath (Inr []),
               FindElements d login_text_xpath (Inr (filter has_login_text els2)),
               Click (hd (filter has_login_text els2)) r])
         \<and> (filter has_login_text els2 = [] \<longrightarrow>
            r = Inl submit_not_found \<and> world s' = w2 \<and>
            trace s' = trace s @
              [FindElements d submit_xpath (Inr []),
               FindElements d login_text_xpath (Inr [])])))"
  using assms
  by (auto simp: login_submit_def find_elements_def call_def bnd_def raise_def
      selects_submit selects_login_text split: prod.splits sum.splits)

theorem login_submit_order_witness:
  "fst (login_submit sim_env 0 (sim_start [sign_in_button, submit_button] [] 0)) = Inr ()
   \<and> sim_clicks (world (snd (login_submit sim_env 0
         (sim_start [sign_in_button, submit_button] [] 0)))) = [elem_id submit_button]
   \<and> trace (snd (login_submit sim_env 0 (sim_start [sign_in_button, submit_button] [] 0)))
       = [FindElements 0 submit_xpath (Inr [submit_button]), Click submit_button (Inr ())]
   \<and> fst (login_submit sim_env 0 (sim_start [userid_box, sign_in_button] [] 0)) = Inr ()
   \<and> sim_clicks (world (snd (login_submit sim_env 0
         (sim_start [userid_box, sign_in_button] [] 0)))) = [elem_id sign_in_button]
   \<and> trace (snd (login_submit sim_env 0 (sim_start [userid_box, sign_in_button] [] 0)))
       = [FindElements 0 submit_xpath (Inr []),
          FindElements 0 login_text_xpath (Inr [sign_in_button]),
          Click sign_in_button (Inr ())]
   \<and> fst (login_submit sim_env 0 (sim_start [userid_box] [] 0)) = Inl submit_not_found
   \<and> sim_clicks (world (snd (login_submit sim_env 0 (sim_start [userid_box] [] 0)))) = []
   \<and> trace (snd (login_submit sim_env 0 (sim_start [userid_box] [] 0)))
       = [FindElements 0 submit_xpath (Inr []), FindElements 0 login_text_xpath (Inr [])]"
proof -
  let ?run = "\<lambda>pg. login_submit sim_env 0 (sim_start pg [] 0)"
  have page: "page_elements sim_env 0 w = (Inr (sim_page w), w)" for w
    by (simp add: sim_env_def)
  have click: "click_on sim_env e w = (Inr (), w\<lparr>sim_clicks := sim_clicks w @ [elem_id e]\<rparr>)"
    for e w
    by (simp add: sim_env_def)
  have start: "sim_page (world (sim_start pg [] 0)) = pg"
    "sim_clicks (world (sim_start pg [] 0)) = []" "trace (sim_start pg [] 0) = []" for pg
    by (simp_all add: sim_start_def)
  have p: "\<not> is_submit_button sign_in_button" "is_submit_button submit_button"
    "\<not> is_submit_button userid_box" "has_login_text sign_in_button"
    "\<not> has_login_text userid_box"
    by code_simp+
  from login_submit_order [where env = sim_env and d = 0
        and s = "sim_start [sign_in_button, submit_button] [] 0", OF prod.collapse [symmetric] page]
    login_submit_order [where env = sim_env and d = 0
        and s = "sim_start [userid_box, sign_in_button] [] 0", OF prod.collapse [symmetric] page]
    login_submit_order [where env = sim_env and d = 0
        and s = "sim_start [userid_box] [] 0", OF prod.collapse [symmetric] page]
  show ?thesis
    by (simp add: start p page click prod_eq_iff)
qed

section \<open>Teardown and the retry decorator\<close>

lemma emits_quit:
  "emits (suppress (call (Quit d) op)) (\<lambda>r evs. r = Inr () \<and> (\<exists>q. evs = [Quit d q]))"
  by (rule emitsI) (auto simp: suppress_def try_except_def call_def ret_def split: prod.splits sum.splits)

lemma emits_login_once:
  "emits (login_once env cfg)
     (\<lambda>r evs. sessions_quit evs = sessions_started evs \<and> length (sessions_started evs) \<le> 1
        \<and> retry_delays evs = []
        \<and> list_all (\<lambda>ev. \<not> is_retry_wait ev) evs
        \<and> list_all (\<lambda>ev. \<not> is_persistence ev) evs)"
  unfolding login_once_def
proof (rule emits_bnd [OF emits_launch])
  fix d
  show "emits (try_finally (login_body env cfg d) (suppress (call (Quit d) (quit_driver env d))))
     (\<lambda>r evs. \<exists>b q. evs = b @ [Quit d q] \<and> list_all in_session b)"
    by (rule emits_try_finally [OF only_login_body [unfolded only_def] emits_quit]) auto
next
  fix e evs
  assume "list_all is_launch evs \<and> sessions_started evs = (case Inl e of Inl e \<Rightarrow> [] | Inr d \<Rightarrow> [d])"
  then show "sessions_quit evs = sessions_started evs \<and> length (sessions_started evs) \<le> 1
        \<and> retry_delays evs = []
        \<and> list_all (\<lambda>ev. \<not> is_retry_wait ev) evs
        \<and> list_all (\<lambda>ev. \<not> is_persistence ev) evs"
    by (simp add: is_launch_lists)
next
  fix d e1 r e2
  assume l: "list_all is_launch e1 \<and> sessions_started e1 = (case Inr d of Inl e \<Rightarrow> [] | Inr d \<Rightarrow> [d])"
    and b: "\<exists>b q. e2 = b @ [Quit d q] \<and> list_all in_session b"
  then obtain b q where e2: "e2 = b @ [Quit d q]" "list_all in_session b" by blast
  have app: "sessions_started (xs @ ys) = sessions_started xs @ sessions_started ys"
    "sessions_quit (xs @ ys) = sessions_quit xs @ sessions_quit ys"
    "retry_delays (xs @ ys) = retry_delays xs @ retry_delays ys" for xs ys
    by (simp_all add: sessions_started_def sessions_quit_def retry_delays_def)
  have q: "sessions_started [Quit d q] = []" "sessions_quit [Quit d q] = [d]"
    "retry_delays [Quit d q] = []"
    by (simp_all add: sessions_started_def sessions_quit_def retry_delays_def)
  show "sessions_quit (e1 @ e2) = sessions_started (e1 @ e2) \<and> length (sessions_started (e1 @ e2)) \<le> 1
        \<and> retry_delays (e1 @ e2) = []
        \<and> list_all (\<lambda>ev. \<not> is_retry_wait ev) (e1 @ e2)
        \<and> list_all (\<lambda>ev. \<not> is_persistence ev) (e1 @ e2)"
    using l is_launch_lists [of e1] in_session_lists [OF e2(2)]
    by (simp add: e2(1) app q)
qed

lemma login_once_outcome:
  assumes "launch env cfg s = (Inr d, s1)" and "login_body env cfg d s1 = (rb, s2)"
    and "quit_driver env d (world s2) = (q, w3)"
  shows "login_once env cfg s = (rb, \<lparr>world = w3, trace = trace s2 @ [Quit d q]\<rparr>)"
  using assms
  by (cases q)
    (simp_all add: login_once_def bnd_def try_finally_def suppress_def try_except_def call_def
      ret_def)

lemma login_once_no_launch:
  assumes "launch env cfg s = (Inl e, s1)"
  shows "login_once env cfg s = (Inl e, s1)"
  using assms by (simp add: login_once_def bnd_def)

lemma login_three_runs:
  "login env cfg s =
     (case login_once env cfg s of
        (Inr v, s1) \<Rightarrow> (Inr v, s1)
      | (Inl e1, s1) \<Rightarrow>
          (case login_once env cfg (retry_wait env 5000 s1) of
             (Inr v, s2) \<Rightarrow> (Inr v, s2)
           | (Inl e2, s2) \<Rightarrow> login_once env cfg (retry_wait env 5000 s2)))"
proof -
  have last: "retry_call env 3 5000 fn 3 t = fn t" for fn :: "(string, 'a) prog" and t
    by (subst retry_call.simps) (simp split: prod.splits sum.splits)
  have "login env cfg s = retry_call env 3 5000 (login_once env cfg) 1 s"
    by (simp add: login_def)
  also have "\<dots> =
     (case login_once env cfg s of
        (Inr v, s1) \<Rightarrow> (Inr v, s1)
      | (Inl e1, s1) \<Rightarrow> retry_call env 3 5000 (login_once env cfg) 2 (retry_wait env 5000 s1))"
    by (subst retry_call.simps) (simp split: prod.splits sum.splits)
  also have "\<dots> =
     (case login_once env cfg s of
        (Inr v, s1) \<Rightarrow> (Inr v, s1)
      | (Inl e1, s1) \<Rightarrow>
          (case login_once env cfg (retry_wait env 5000 s1) of
             (Inr v, s2) \<Rightarrow> (Inr v, s2)
           | (Inl e2, s2) \<Rightarrow>
               retry_call env 3 5000 (login_once env cfg) 3 (retry_wait env 5000 s2)))"
    by (subst (2) retry_call.simps) (simp split: prod.splits sum.splits)
  finally show ?thesis by (simp only: last)
qed

lemma cycles_single: "list_all (\<lambda>ev. \<not> is_retry_wait ev) c \<Longrightarrow> cycles c = [c]"
  by (induction c) simp_all

lemma cycles_append:
  "list_all (\<lambda>ev. \<not> is_retry_wait ev) c \<Longrightarrow> cycles (c @ RetryWait ms # rest) = c # cycles rest"
  by (induction c) simp_all


lemma retry_delays_none:
  "list_all (\<lambda>ev. \<not> is_retry_wait ev) c \<Longrightarrow> retry_delays c = []"
proof (induction c)
  case Nil
  show ?case by (simp add: retry_delays_def)
next
  case (Cons ev c)
  then show ?case by (cases ev) (simp_all add: retry_delays_def)
qed

lemma emits_retry_call:
  assumes fn: "emits fn (\<lambda>r evs. list_all (\<lambda>ev. \<not> is_retry_wait ev) evs \<and> Qc evs)"
  shows "n \<le> stop \<Longrightarrow>
    emits (retry_call env stop wait fn n)
      (\<lambda>r evs. 1 \<le> length (cycles evs) \<and> length (cycles evs) \<le> stop + 1 - n
         \<and> retry_delays evs = replicate (length (cycles evs) - 1) wait
         \<and> (\<forall>c \<in> set (cycles evs). Qc c))"
proof (induction "stop - n" arbitrary: n)
  case 0
  then have n: "n = stop" by simp
  show ?case
  proof (rule emitsI)
    fix s r s'
    assume run: "retry_call env stop wait fn n s = (r, s')"
    have "fn s = (r, s')"
      using run by (subst (asm) retry_call.simps) (auto simp: n split: prod.splits sum.splits)
    from emitsD [OF fn this] obtain evs where evs: "trace s' = trace s @ evs"
      "list_all (\<lambda>ev. \<not> is_retry_wait ev) evs" "Qc evs" by blast
    then show "\<exists>evs. trace s' = trace s @ evs \<and>
      (1 \<le> length (cycles evs) \<and> length (cycles evs) \<le> stop + 1 - n
         \<and> retry_delays evs = replicate (length (cycles evs) - 1) wait
         \<and> (\<forall>c \<in> set (cycles evs). Qc c))"
      by (intro exI [of _ evs]) (simp add: cycles_single retry_delays_none n)
  qed
next
  case (Suc k)
  then have lt: "n < stop" and k: "k = stop - Suc n" and le: "Suc n \<le> stop" by simp_all
  note IH = Suc.hyps(1) [OF k le]
  show ?case
  proof (rule emitsI)
    fix s r s'
    assume run: "retry_call env stop wait fn n s = (r, s')"
    obtain r1 s1 where f: "fn s = (r1, s1)" by (cases "fn s")
    from emitsD [OF fn f] obtain e1 where e1: "trace s1 = trace s @ e1"
      "list_all (\<lambda>ev. \<not> is_retry_wait ev) e1" "Qc e1" by blast
    show "\<exists>evs. trace s' = trace s @ evs \<and>
      (1 \<le> length (cycles evs) \<and> length (cycles evs) \<le> stop + 1 - n
         \<and> retry_delays evs = replicate (length (cycles evs) - 1) wait
         \<and> (\<forall>c \<in> set (cycles evs). Qc c))"
    proof (cases r1)
      case (Inr v)
      then have "r = r1" "s' = s1"
        using run f by (subst (asm) retry_call.simps, simp)+
      then show ?thesis
        using e1 lt by (intro exI [of _ e1]) (simp add: cycles_single retry_delays_none)
    next
      case (Inl e)
      then have next_run: "retry_call env stop wait fn (Suc n) (retry_wait env wait s1) = (r, s')"
        using run f lt by (subst (asm) retry_call.simps) simp
      from emitsD [OF IH next_run] obtain e2 where
        e2: "trace s' = trace (retry_wait env wait s1) @ e2"
          "1 \<le> length (cycles e2)" "length (cycles e2) \<le> stop + 1 - Suc n"
          "retry_delays e2 = replicate (length (cycles e2) - 1) wait"
          "\<forall>c \<in> set (cycles e2). Qc c"
        by blast
      have tr: "trace s' = trace s @ (e1 @ RetryWait wait # e2)"
        using e1(1) e2(1) by (simp add: retry_wait_def)
      have cy: "cycles (e1 @ RetryWait wait # e2) = e1 # cycles e2"
        by (rule cycles_append [OF e1(2)])
      have "retry_delays (e1 @ RetryWait wait # e2) = wait # retry_delays e2"
        using retry_delays_none [OF e1(2)] by (simp add: retry_delays_def)
      also have "\<dots> = replicate (length (cycles e2)) wait"
        using e2(2,4) by (cases "length (cycles e2)") simp_all
      finally have rd: "retry_delays (e1 @ RetryWait wait # e2)
          = replicate (length (cycles (e1 @ RetryWait wait # e2)) - 1) wait"
        by (simp add: cy)
      show ?thesis
        using tr rd e1(3) e2(3,5) lt by (intro exI [of _ "e1 @ RetryWait wait # e2"]) (simp add: cy)
    qed
  qed
qed

text \<open>
  Claim C6. First, a run of \<^verbatim>\<open>login\<close> that has launched a session \<open>d\<close> ends with
  one call of \<^verbatim>\<open>quit\<close> on \<open>d\<close>, made in the world the body left, whatever the
  body's outcome \<open>rb\<close>; the run's outcome is \<open>rb\<close> whatever \<^verbatim>\<open>quit\<close> returned or
  raised (\<open>q\<close>). A run whose launch fails has no session and ends with the launch's
  exception. Second, the decorated \<^verbatim>\<open>login\<close> is at most three such runs: it stops at
  the first that succeeds, lets 5000 milliseconds pass between two runs, and ends with the
  outcome of the third. Third, on the trace: in every run the sessions quit are exactly
  the sessions started, at most one, and the run has no retry delay of its own; the
  decorated \<^verbatim>\<open>login\<close> has at most three cycles, separated by delays of 5000
  milliseconds, and every cycle quits exactly the session it started.
\<close>

theorem login_retries_and_teardown:
  "(\<forall>s d s1 rb s2 q w3.
      launch env cfg s = (Inr d, s1) \<longrightarrow> login_body env cfg d s1 = (rb, s2) \<longrightarrow>
      quit_driver env d (world s2) = (q, w3) \<longrightarrow>
      login_once env cfg s = (rb, \<lparr>world = w3, trace = trace s2 @ [Quit d q]\<rparr>))
   \<and> (\<forall>s e s1. launch env cfg s = (Inl e, s1) \<longrightarrow> login_once env cfg s = (Inl e, s1))
   \<and> (\<forall>s. login env cfg s =
         (case login_once env cfg s of
            (Inr v, s1) \<Rightarrow> (Inr v, s1)
          | (Inl e1, s1) \<Rightarrow>
              (case login_once env cfg (retry_wait env 5000 s1) of
                 (Inr v, s2) \<Rightarrow> (Inr v, s2)
               | (Inl e2, s2) \<Rightarrow> login_once env cfg (retry_wait env 5000 s2))))
   \<and> (\<forall>s. world (retry_wait env 5000 s) = pass_time env 5000 (world s)
         \<and> trace (retry_wait env 5000 s) = trace s @ [RetryWait 5000])
   \<and> (\<forall>s r s'. login_once env cfg s = (r, s') \<longrightarrow>
      (\<exists>evs. trace s' = trace s @ evs \<and> retry_delays evs = []
         \<and> sessions_quit evs = sessions_started evs \<and> length (sessions_started evs) \<le> 1))
   \<and> (\<forall>s r s'. login env cfg s = (r, s') \<longrightarrow>
      (\<exists>evs. trace s' = trace s @ evs
         \<and> length (cycles evs) \<le> 3
         \<and> retry_delays evs = replicate (length (cycles evs) - 1) 5000
         \<and> (\<forall>c \<in> set (cycles evs).
               sessions_quit c = sessions_started c \<and> length (sessions_started c) \<le> 1)))"
proof (intro conjI allI impI)
  fix s d s1 rb s2 q w3
  assume "launch env cfg s = (Inr d, s1)" and "login_body env cfg d s1 = (rb, s2)"
    and "quit_driver env d (world s2) = (q, w3)"
  then show "login_once env cfg s = (rb, \<lparr>world = w3, trace = trace s2 @ [Quit d q]\<rparr>)"
    by (rule login_once_outcome)
next
  fix s e s1
  assume "launch env cfg s = (Inl e, s1)"
  then show "login_once env cfg s = (Inl e, s1)"
    by (rule login_once_no_launch)
next
  fix s
  show "login env cfg s =
         (case login_once env cfg s of
            (Inr v, s1) \<Rightarrow> (Inr v, s1)
          | (Inl e1, s1) \<Rightarrow>
              (case login_once env cfg (retry_wait env 5000 s1) of
                 (Inr v, s2) \<Rightarrow> (Inr v, s2)
               | (Inl e2, s2) \<Rightarrow> login_once env cfg (retry_wait env 5000 s2)))"
    by (rule login_three_runs)
next
  fix s
  show "world (retry_wait env 5000 s) = pass_time env 5000 (world s)"
    by (simp add: retry_wait_def)
  show "trace (retry_wait env 5000 s) = trace s @ [RetryWait 5000]"
    by (simp add: retry_wait_def)
next
  fix s r s'
  assume "login_once env cfg s = (r, s')"
  from emitsD [OF emits_login_once this]
  show "\<exists>evs. trace s' = trace s @ evs \<and> retry_delays evs = []
         \<and> sessions_quit evs = sessions_started evs \<and> length (sessions_started evs) \<le> 1"
    by blast
next
  fix s r s'
  assume run: "login env cfg s = (r, s')"
  have "emits (login_once env cfg)
     (\<lambda>r evs. list_all (\<lambda>ev. \<not> is_retry_wait ev) evs
        \<and> (sessions_quit evs = sessions_started evs \<and> length (sessions_started evs) \<le> 1))"
    by (rule emits_weaken [OF emits_login_once]) simp
  from emits_retry_call [OF this, of 1 3 env 5000]
  have "emits (login env cfg)
      (\<lambda>r evs. 1 \<le> length (cycles evs) \<and> length (cycles evs) \<le> 3 + 1 - 1
         \<and> retry_delays evs = replicate (length (cycles evs) - 1) 5000
         \<and> (\<forall>c \<in> set (cycles evs).
               sessions_quit c = sessions_started c \<and> length (sessions_started c) \<le> 1))"
    by (simp add: login_def)
  from emitsD [OF this run]
  show "\<exists>evs. trace s' = trace s @ evs
         \<and> length (cycles evs) \<le> 3
         \<and> retry_delays evs = replicate (length (cycles evs) - 1) 5000
         \<and> (\<forall>c \<in> set (cycles evs).
               sessions_quit c = sessions_started c \<and> length (sessions_started c) \<le> 1)"
    by auto
qed

theorem login_retries_and_teardown_witness:
  "(case login sim_env sim_cfg (sim_start [] [] 0) of
      (r, s') \<Rightarrow>
        (r, sim_sessions (world s'), sim_quits (world s'), sim_now (world s'),
         map length (cycles (trace s')), retry_delays (trace s')))
     = (Inl TimeoutException, 3, [0, 1, 2], 10000000, [5, 5, 5], [5000, 5000])
   \<and> length (cycles (trace (snd (login sim_env sim_cfg (sim_start [] [] 0))))) \<le> 3
   \<and> (case login_once sim_env sim_cfg 
        (sim_start [userid_box, password_box, totp_box, submit_button] [''https://kite.zerodha.com/?request_token=abc123&status=success''] 0) of
      (r, s') \<Rightarrow> (r, sim_sessions (world s'), sim_quits (world s'), last (trace s')))
     = (Inr ''tok123'', 1, [0], Quit 0 (Inl (LibraryError ''WebDriverException'')))"
proof -
  have a: "(case login sim_env sim_cfg (sim_start [] [] 0) of
      (r, s') \<Rightarrow>
        (r, sim_sessions (world s'), sim_quits (world s'), sim_now (world s'),
         map length (cycles (trace s')), retry_delays (trace s')))
     = (Inl TimeoutException, 3, [0, 1, 2], 10000000, [5, 5, 5], [5000, 5000])"
    by (simp add: run_defs sim_defs retry_delays_def del: run_dels cong: run_congs)
  have b: "(case login_once sim_env sim_cfg 
        (sim_start [userid_box, password_box, totp_box, submit_button] [''https://kite.zerodha.com/?request_token=abc123&status=success''] 0) of
      (r, s') \<Rightarrow> (r, sim_sessions (world s'), sim_quits (world s'), last (trace s')))
     = (Inr ''tok123'', 1, [0], Quit 0 (Inl (LibraryError ''WebDriverException'')))"
    by (simp add: run_defs sim_defs del: run_dels cong: run_congs)
  have t: "trace (sim_start [] [] 0) = []" by (simp add: sim_start_def)
  from login_retries_and_teardown [of sim_env sim_cfg]
  have "\<exists>evs. trace (snd (login sim_env sim_cfg (sim_start [] [] 0)))
      = trace (sim_start [] [] 0) @ evs \<and> length (cycles evs) \<le> 3"
    by (metis prod.collapse)
  then have "length (cycles (trace (snd (login sim_env sim_cfg (sim_start [] [] 0))))) \<le> 3"
    by (auto simp: t)
  with a b show ?thesis by simp
qed

section \<open>Persistence of the token\<close>

lemma bnd_InrD:
  assumes "bnd m f s = (Inr y, s')"
  shows "\<exists>x s1. m s = (Inr x, s1) \<and> f x s1 = (Inr y, s')"
  using assms by (auto simp: bnd_def split: prod.splits sum.splits)

lemma main_eq:
  "main env cfg s =
     (case login env cfg s of
        (Inl e, s1) \<Rightarrow> (1, s1)
      | (Inr tok, s1) \<Rightarrow>
          (case save_token_to_mongo env cfg tok s1 of
             (Inl e, s2) \<Rightarrow> (1, s2)
           | (Inr u, s2) \<Rightarrow> (0, s2)))"
  by (simp add: main_def bnd_def split: prod.splits sum.splits)

lemma save_token_written:
  assumes "new_mongo_client env (mongo_uri cfg) (world s) = (Inr c, w1)"
    and "client_default_database env c w1 = (Inr db, w2)"
    and "coll_update_one env db
           \<lparr>collection = ''zerodhatokens'', filter_updatedBy = TOKEN_UPDATED_BY,
              set_accessToken = tok, set_updatedAt = clock_utcnow env w2,
              set_expiresAt = clock_utcnow env w2 + 24 * 3600 * 1000000,
              set_isActive = True, set_updatedBy = TOKEN_UPDATED_BY,
              setOnInsert_createdAt = clock_utcnow env w2, upsert = True\<rparr> w2 = (u, w3)"
    and "close_client env c w3 = (x, w4)"
  shows "save_token_to_mongo env cfg tok s =
     (u, \<lparr>world = w4,
          trace = trace s @
            [MongoClient (mongo_uri cfg) (Inr c), GetDefaultDatabase c (Inr db),
             UtcNow (clock_utcnow env w2),
             UpdateOne db
               \<lparr>collection = ''zerodhatokens'', filter_updatedBy = TOKEN_UPDATED_BY,
                  set_accessToken = tok, set_updatedAt = clock_utcnow env w2,
                  set_expiresAt = clock_utcnow env w2 + 24 * 3600 * 1000000,
                  set_isActive = True, set_updatedBy = TOKEN_UPDATED_BY,
                  setOnInsert_createdAt = clock_utcnow env w2, upsert = True\<rparr> u,
             Close c x]\<rparr>)"
  using assms
  by (cases u; cases x)
    (simp_all add: save_token_to_mongo_def bnd_def try_finally_def suppress_def try_except_def
      call_def ret_def utcnow_def MONGO_DB_NAME_def MONGO_COLLECTION_NAME_def
      timedelta_hours_def Let_def)

lemma save_token_no_client:
  assumes "new_mongo_client env (mongo_uri cfg) (world s) = (Inl e, w1)"
  shows "save_token_to_mongo env cfg tok s =
     (Inl e, \<lparr>world = w1, trace = trace s @ [MongoClient (mongo_uri cfg) (Inl e)]\<rparr>)"
  using assms by (simp add: save_token_to_mongo_def bnd_def call_def)

lemma save_token_no_database:
  assumes "new_mongo_client env (mongo_uri cfg) (world s) = (Inr c, w1)"
    and "client_default_database env c w1 = (Inl e, w2)"
    and "close_client env c w2 = (x, w3)"
  shows "save_token_to_mongo env cfg tok s =
     (Inl e, \<lparr>world = w3,
          trace = trace s @
            [MongoClient (mongo_uri cfg) (Inr c), GetDefaultDatabase c (Inl e), Close c x]\<rparr>)"
  using assms
  by (cases x)
    (simp_all add: save_token_to_mongo_def bnd_def try_finally_def suppress_def try_except_def
      call_def ret_def MONGO_DB_NAME_def)

lemma exchange_token:
  assumes "exchange env cfg rt s = (Inr tok, s')"
  shows "\<exists>data. kite_generate_session env rt (api_secret cfg) (world s) = (Inr data, world s')
     \<and> map_of data ''access_token'' = Some tok
     \<and> trace s' = trace s @ [GenerateSession rt (api_secret cfg) (Inr data), SetAccessToken tok]"
  using assms
  by (auto simp: exchange_def bnd_def call_def lift_def ret_def py_getitem_def
      split: prod.splits sum.splits option.splits)

lemma login_body_token:
  assumes "login_body env cfg d s = (Inr tok, s')"
  shows "\<exists>rt s0. exchange env cfg rt s0 = (Inr tok, s')"
proof -
  from assms obtain s1 where "complete_login env cfg d s1 = (Inr tok, s')"
    unfolding login_body_def by (blast dest!: bnd_InrD)
  then show ?thesis
    unfolding complete_login_def by (blast dest!: bnd_InrD)
qed

lemma login_once_token:
  assumes "login_once env cfg s = (Inr tok, s')"
  shows "\<exists>d rt s0 s2 q. exchange env cfg rt s0 = (Inr tok, s2)
     \<and> (q, world s') = quit_driver env d (world s2) \<and> trace s' = trace s2 @ [Quit d q]"
proof -
  from assms obtain d s1 where
    fin: "try_finally (login_body env cfg d) (suppress (call (Quit d) (quit_driver env d))) s1
        = (Inr tok, s')"
    unfolding login_once_def by (blast dest!: bnd_InrD)
  obtain rb s2 where body: "login_body env cfg d s1 = (rb, s2)"
    by (cases "login_body env cfg d s1")
  obtain q w3 where quit: "quit_driver env d (world s2) = (q, w3)"
    by (cases "quit_driver env d (world s2)")
  from fin body quit have "rb = Inr tok" "world s' = w3" "trace s' = trace s2 @ [Quit d q]"
    by (cases q; auto simp: try_finally_def suppress_def try_except_def call_def ret_def)+
  with body quit login_body_token [of env cfg d s1 tok s2] show ?thesis
    by (metis)
qed

lemma login_token:
  assumes "login env cfg s = (Inr tok, s')"
  shows "\<exists>t. login_once env cfg t = (Inr tok, s')"
  using assms unfolding login_three_runs
  by (auto split: prod.splits sum.splits)

lemma list_all_cycles:
  assumes "\<And>ms. P (RetryWait ms)"
  shows "\<forall>c \<in> set (cycles evs). list_all P c \<Longrightarrow> list_all P evs"
proof (induction evs)
  case Nil
  show ?case by simp
next
  case (Cons ev evs)
  show ?case
  proof (cases "is_retry_wait ev")
    case True
    then obtain ms where "ev = RetryWait ms" by (cases ev) simp_all
    with Cons assms show ?thesis by simp
  next
    case False
    with Cons show ?thesis by (cases "cycles evs") simp_all
  qed
qed

lemma login_no_persistence:
  assumes "login env cfg s = (r, s')"
  shows "\<exists>evs. trace s' = trace s @ evs \<and> list_all (\<lambda>ev. \<not> is_persistence ev) evs"
proof -
  have "emits (login_once env cfg)
     (\<lambda>r evs. list_all (\<lambda>ev. \<not> is_retry_wait ev) evs
        \<and> list_all (\<lambda>ev. \<not> is_persistence ev) evs)"
    by (rule emits_weaken [OF emits_login_once]) simp
  from emits_retry_call [OF this, of 1 3 env 5000]
  have "emits (login env cfg)
      (\<lambda>r evs. \<forall>c \<in> set (cycles evs). list_all (\<lambda>ev. \<not> is_persistence ev) c)"
    unfolding login_def by (rule emits_weaken) simp_all
  from emitsD [OF this assms] obtain evs where
    "trace s' = trace s @ evs" "\<forall>c \<in> set (cycles evs). list_all (\<lambda>ev. \<not> is_persistence ev) c"
    by blast
  then show ?thesis
    using list_all_cycles [of "\<lambda>ev. \<not> is_persistence ev" evs] by auto
qed

text \<open>
  Claim C8. \<^verbatim>\<open>main\<close> calls \<^verbatim>\<open>save_token_to_mongo\<close> exactly when \<^verbatim>\<open>login\<close> has
  returned, once, with the token \<^verbatim>\<open>login\<close> returned; after a failed login the state
  is the one \<^verbatim>\<open>login\<close> left and the exit status is 1. The call makes one
  \<^verbatim>\<open>update_one\<close>, in the world \<open>w2\<close> where the database was obtained: an upsert into
  \<^verbatim>\<open>zerodhatokens\<close>, filtered by the fixed \<^verbatim>\<open>updatedBy\<close>, that sets \<^verbatim>\<open>accessToken\<close>
  to the very token and \<^verbatim>\<open>expiresAt\<close> to the time of the write plus 24 hours (in
  microseconds); its outcome is the outcome of the call. When the client or the database
  cannot be had, no \<^verbatim>\<open>update_one\<close> is made. A token that \<^verbatim>\<open>login\<close> returns is the
  entry \<^verbatim>\<open>access_token\<close> of the data \<^verbatim>\<open>generate_session\<close> returned, and the trace of
  \<^verbatim>\<open>login\<close> ends with that exchange and the teardown. \<^verbatim>\<open>login\<close> itself makes no call
  to the database.
\<close>

theorem main_persists_token_once:
  fixes env :: "'w env"
  shows "(\<forall>s. main env cfg s =
       (case login env cfg s of
          (Inl e, s1) \<Rightarrow> (1, s1)
        | (Inr tok, s1) \<Rightarrow>
            (case save_token_to_mongo env cfg tok s1 of
               (Inl e, s2) \<Rightarrow> (1, s2)
             | (Inr u, s2) \<Rightarrow> (0, s2))))
   \<and> (\<forall>s tok c w1 db w2 u w3 x w4.
        new_mongo_client env (mongo_uri cfg) (world s) = (Inr c, w1) \<longrightarrow>
        client_default_database env c w1 = (Inr db, w2) \<longrightarrow>
        coll_update_one env db
           \<lparr>collection = ''zerodhatokens'', filter_updatedBy = TOKEN_UPDATED_BY,
              set_accessToken = tok, set_updatedAt = clock_utcnow env w2,
              set_expiresAt = clock_utcnow env w2 + 24 * 3600 * 1000000,
              set_isActive = True, set_updatedBy = TOKEN_UPDATED_BY,
              setOnInsert_createdAt = clock_utcnow env w2, upsert = True\<rparr> w2 = (u, w3) \<longrightarrow>
        close_client env c w3 = (x, w4) \<longrightarrow>
        save_token_to_mongo env cfg tok s =
          (u, \<lparr>world = w4,
               trace = trace s @
                 [MongoClient (mongo_uri cfg) (Inr c), GetDefaultDatabase c (Inr db),
                  UtcNow (clock_utcnow env w2),
                  UpdateOne db
           \<lparr>collection = ''zerodhatokens'', filter_updatedBy = TOKEN_UPDATED_BY,
              set_accessToken = tok, set_updatedAt = clock_utcnow env w2,
              set_expiresAt = clock_utcnow env w2 + 24 * 3600 * 1000000,
              set_isActive = True, set_updatedBy = TOKEN_UPDATED_BY,
              setOnInsert_createdAt = clock_utcnow env w2, upsert = True\<rparr> u,
                  Close c x]\<rparr>))
   \<and> (\<forall>s tok e w1.
        new_mongo_client env (mongo_uri cfg) (world s) = (Inl e, w1) \<longrightarrow>
        save_token_to_mongo env cfg tok s =
          (Inl e, \<lparr>world = w1, trace = trace s @ [MongoClient (mongo_uri cfg) (Inl e)]\<rparr>))
   \<and> (\<forall>s tok c w1 e w2 x w3.
        new_mongo_client env (mongo_uri cfg) (world s) = (Inr c, w1) \<longrightarrow>
        client_default_database env c w1 = (Inl e, w2) \<longrightarrow>
        close_client env c w2 = (x, w3) \<longrightarrow>
        save_token_to_mongo env cfg tok s =
          (Inl e, \<lparr>world = w3,
               trace = trace s @
                 [MongoClient (mongo_uri cfg) (Inr c), GetDefaultDatabase c (Inl e),
                  Close c x]\<rparr>))
   \<and> (\<forall>s tok s'. login env cfg s = (Inr tok, s') \<longrightarrow>
        (\<exists>d rt (s0 :: 'w st) (s2 :: 'w st) q data.
           kite_generate_session env rt (api_secret cfg) (world s0) = (Inr data, world s2)
           \<and> map_of data ''access_token'' = Some tok
           \<and> (q, world s') = quit_driver env d (world s2)
           \<and> trace s' = trace s0 @
               [GenerateSession rt (api_secret cfg) (Inr data), SetAccessToken tok, Quit d q]))
   \<and> (\<forall>s r s'. login env cfg s = (r, s') \<longrightarrow>
        (\<exists>evs. trace s' = trace s @ evs \<and> list_all (\<lambda>ev. \<not> is_persistence ev) evs))"
proof (intro conjI allI impI)
  fix s
  show "main env cfg s =
       (case login env cfg s of
          (Inl e, s1) \<Rightarrow> (1, s1)
        | (Inr tok, s1) \<Rightarrow>
            (case save_token_to_mongo env cfg tok s1 of
               (Inl e, s2) \<Rightarrow> (1, s2)
             | (Inr u, s2) \<Rightarrow> (0, s2)))"
    by (rule main_eq)
next
  fix s :: "'w st" and tok c w1 db w2 u w3 x w4
  assume "new_mongo_client env (mongo_uri cfg) (world s) = (Inr c, w1)"
    and "client_default_database env c w1 = (Inr db, w2)"
    and "coll_update_one env db
           \<lparr>collection = ''zerodhatokens'', filter_updatedBy = TOKEN_UPDATED_BY,
              set_accessToken = tok, set_updatedAt = clock_utcnow env w2,
              set_expiresAt = clock_utcnow env w2 + 24 * 3600 * 1000000,
              set_isActive = True, set_updatedBy = TOKEN_UPDATED_BY,
              setOnInsert_createdAt = clock_utcnow env w2, upsert = True\<rparr> w2 = (u, w3)"
    and "close_client env c w3 = (x, w4)"
  then show "save_token_to_mongo env cfg tok s =
          (u, \<lparr>world = w4,
               trace = trace s @
                 [MongoClient (mongo_uri cfg) (Inr c), GetDefaultDatabase c (Inr db),
                  UtcNow (clock_utcnow env w2),
                  UpdateOne db
           \<lparr>collection = ''zerodhatokens'', filter_updatedBy = TOKEN_UPDATED_BY,
              set_accessToken = tok, set_updatedAt = clock_utcnow env w2,
              set_expiresAt = clock_utcnow env w2 + 24 * 3600 * 1000000,
              set_isActive = True, set_updatedBy = TOKEN_UPDATED_BY,
              setOnInsert_createdAt = clock_utcnow env w2, upsert = True\<rparr> u,
                  Close c x]\<rparr>)"
    by (rule save_token_written)
next
  fix s :: "'w st" and tok e w1
  assume "new_mongo_client env (mongo_uri cfg) (world s) = (Inl e, w1)"
  then show "save_token_to_mongo env cfg tok s =
          (Inl e, \<lparr>world = w1, trace = trace s @ [MongoClient (mongo_uri cfg) (Inl e)]\<rparr>)"
    by (rule save_token_no_client)
next
  fix s :: "'w st" and tok c w1 e w2 x w3
  assume "new_mongo_client env (mongo_uri cfg) (world s) = (Inr c, w1)"
    and "client_default_database env c w1 = (Inl e, w2)"
    and "close_client env c w2 = (x, w3)"
  then show "save_token_to_mongo env cfg tok s =
          (Inl e, \<lparr>world = w3,
               trace = trace s @
                 [MongoClient (mongo_uri cfg) (Inr c), GetDefaultDatabase c (Inl e),
                  Close c x]\<rparr>)"
    by (rule save_token_no_database)
next
  fix s tok s'
  assume "login env cfg s = (Inr tok, s')"
  then obtain t where "login_once env cfg t = (Inr tok, s')"
    by (blast dest: login_token)
  then obtain d rt s0 s2 q where ex: "exchange env cfg rt s0 = (Inr tok, s2)"
    and q: "(q, world s') = quit_driver env d (world s2)" "trace s' = trace s2 @ [Quit d q]"
    by (blast dest: login_once_token)
  from exchange_token [OF ex] obtain data where
    g: "kite_generate_session env rt (api_secret cfg) (world s0) = (Inr data, world s2)"
    "map_of data ''access_token'' = Some tok"
    and t: "trace s2 = trace s0 @ [GenerateSession rt (api_secret cfg) (Inr data), SetAccessToken tok]"
    by blast
  have "trace s' = trace s0 @
      [GenerateSession rt (api_secret cfg) (Inr data), SetAccessToken tok, Quit d q]"
    using q(2) t by simp
  with g q(1) show "\<exists>d rt (s0 :: 'w st) (s2 :: 'w st) q data.
           kite_generate_session env rt (api_secret cfg) (world s0) = (Inr data, world s2)
           \<and> map_of data ''access_token'' = Some tok
           \<and> (q, world s') = quit_driver env d (world s2)
           \<and> trace s' = trace s0 @
               [GenerateSession rt (api_secret cfg) (Inr data), SetAccessToken tok, Quit d q]"
    by blast
next
  fix s r s'
  assume "login env cfg s = (r, s')"
  then show "\<exists>evs. trace s' = trace s @ evs \<and> list_all (\<lambda>ev. \<not> is_persistence ev) evs"
    by (rule login_no_persistence)
qed

theorem main_persists_token_once_witness:
  "(case main sim_env sim_cfg
        (sim_start [userid_box, password_box, totp_box, submit_button]
          [''https://kite.zerodha.com/?request_token=abc123&status=success''] 0) of
      (status, s') \<Rightarrow> (status, sim_updates (world s')))
     = (0, [\<lparr>collection = ''zerodhatokens'', filter_updatedBy = ''aiman.singh30@gmail.com'',
              set_accessToken = ''tok123'', set_updatedAt = 4000000,
              set_expiresAt = 86404000000, set_isActive = True,
              set_updatedBy = ''aiman.singh30@gmail.com'',
              setOnInsert_createdAt = 4000000, upsert = True\<rparr>])
   \<and> (case main sim_env sim_cfg (sim_start [] [] 0) of
      (status, s') \<Rightarrow> (status, sim_updates (world s'), filter is_persistence (trace s')))
     = (1, [], [])
   \<and> main sim_env sim_cfg (sim_start [] [] 0)
     = (1, snd (login sim_env sim_cfg (sim_start [] [] 0)))"
proof -
  have a: "(case main sim_env sim_cfg
        (sim_start [userid_box, password_box, totp_box, submit_button]
          [''https://kite.zerodha.com/?request_token=abc123&status=success''] 0) of
      (status, s') \<Rightarrow> (status, sim_updates (world s')))
     = (0, [\<lparr>collection = ''zerodhatokens'', filter_updatedBy = ''aiman.singh30@gmail.com'',
              set_accessToken = ''tok123'', set_updatedAt = 4000000,
              set_expiresAt = 86404000000, set_isActive = True,
              set_updatedBy = ''aiman.singh30@gmail.com'',
              setOnInsert_createdAt = 4000000, upsert = True\<rparr>])"
    by (simp add: run_defs sim_defs Let_def del: run_dels cong: run_congs)
  have b: "(case main sim_env sim_cfg (sim_start [] [] 0) of
      (status, s') \<Rightarrow> (status, sim_updates (world s'), filter is_persistence (trace s')))
     = (1, [], [])"
    by (simp add: run_defs sim_defs del: run_dels cong: run_congs)
  have c: "fst (login sim_env sim_cfg (sim_start [] [] 0)) = Inl TimeoutException"
    by (simp add: run_defs sim_defs del: run_dels cong: run_congs)
  note eq = main_persists_token_once [of sim_env sim_cfg, THEN conjunct1, rule_format,
      of "sim_start [] [] 0"]
  obtain r s1 where l: "login sim_env sim_cfg (sim_start [] [] 0) = (r, s1)"
    by (cases "login sim_env sim_cfg (sim_start [] [] 0)")
  with c have "r = Inl TimeoutException" by simp
  with eq l have "main sim_env sim_cfg (sim_start [] [] 0)
     = (1, snd (login sim_env sim_cfg (sim_start [] [] 0)))"
    by simp
  with a b show ?thesis by simp
qed

end
